theory Spec2Isabelle
  imports Complex_Main
begin

text \<open>
  A model of the sign-language translator page: \<^verbatim>\<open>config.js\<close>, the pose detector
  (\<^verbatim>\<open>js/poseDetector.js\<close>, the version with face landmarks), \<^verbatim>\<open>js/apiClient.js\<close> and
  \<^verbatim>\<open>js/app.js\<close>. Methods are functions on explicit state; what a method throws is the
  left summand of its result; an \<^verbatim>\<open>async\<close> method is cut at its \<^verbatim>\<open>await\<close>, and the
  single-threaded event loop is a sequence of events.
\<close>

section \<open>Configuration (config.js)\<close>

text \<open>
  The global \<^verbatim>\<open>CONFIG\<close> object. The functions below take the configuration as an
  argument, so that properties can be stated for every batch size; \<open>CONFIG\<close> is the
  value the repository ships.
\<close>

record config =
  API_URL :: string
  FRAME_BATCH_SIZE :: nat
  CAMERA_WIDTH :: nat
  CAMERA_HEIGHT :: nat

definition CONFIG :: config where
  "CONFIG = \<lparr>API_URL = ''https://sign-language-api-lqw3.onrender.com/api'',
             FRAME_BATCH_SIZE = 30, CAMERA_WIDTH = 1280, CAMERA_HEIGHT = 720\<rparr>"

section \<open>Errors\<close>

text \<open>
  Everything the modelled code can throw: a \<^verbatim>\<open>TypeError\<close> from reading a property of
  \<^verbatim>\<open>undefined\<close> or \<^verbatim>\<open>null\<close> or from calling a non-function, the rejection of
  \<^verbatim>\<open>fetch\<close>, the \<^verbatim>\<open>Error('API error: ' + status)\<close> of \<^verbatim>\<open>translate\<close>, and the
  \<^verbatim>\<open>SyntaxError\<close> of \<^verbatim>\<open>response.json()\<close>.
\<close>

datatype js_error = TypeError | FetchError | ApiError nat | SyntaxError

section \<open>Numbers (IEEE 754 binary64)\<close>

text \<open>
  A JavaScript Number. \<open>Finite s m\<close> is the finite value with sign \<open>s\<close> (\<open>True\<close> for
  negative) and magnitude \<open>m \<ge> 0\<close>; \<open>Finite True 0\<close> is \<^verbatim>\<open>-0\<close>. A detection result
  holds values that binary64 represents, and every operation below returns such a value.
\<close>

datatype double = NaN | Infinity bool | Finite bool rat

definition value_of :: "double \<Rightarrow> rat" where
  "value_of c = (case c of Finite s m \<Rightarrow> (if s then - m else m) | _ \<Rightarrow> 0)"

text \<open>\<open>ilog2 n\<close> is the position of the leading bit of \<open>n \<ge> 1\<close>.\<close>

function ilog2 :: "int \<Rightarrow> int" where
  "ilog2 n = (if n < 2 then 0 else 1 + ilog2 (n div 2))"
  by pat_completeness auto
termination
  by (relation "measure nat") auto

declare ilog2.simps [simp del]

text \<open>The binary exponent of a positive rational: \<open>2 powi e \<le> x < 2 powi (e + 1)\<close>.\<close>

definition floor_log2 :: "rat \<Rightarrow> int" where
  "floor_log2 x =
     (case quotient_of x of (p, q) \<Rightarrow>
        (let c = ilog2 p - ilog2 q
         in if 2 powi c \<le> x then c else c - 1))"

definition round_half_even :: "rat \<Rightarrow> int" where
  "round_half_even n =
     (let f = \<lfloor>n\<rfloor>; d = n - of_int f
      in if d < 1 / 2 then f else if 1 / 2 < d then f + 1 else if even f then f else f + 1)"

text \<open>
  The binary64 value of an exact result with sign \<open>s\<close> and magnitude \<open>x \<ge> 0\<close>, in the
  default rounding mode (to nearest, a tie to the even significand): 53 significant bits,
  exponents from \<open>- 1022\<close> (below it the spacing stays \<open>2 powi - 1074\<close>, down to zero)
  to 1023 (a result of \<open>2 powi 1024\<close> or more is an infinity).
\<close>

definition round_to_double :: "bool \<Rightarrow> rat \<Rightarrow> double" where
  "round_to_double s x =
     (if x = 0 then Finite s 0
      else (let e = max (floor_log2 x) (- 1022);
                q = 2 powi (e - 52);
                y = of_int (round_half_even (x / q)) * q
            in if e < 1023 then Finite s y
               else if 2 powi 1024 \<le> y then Infinity s else Finite s y))"

text \<open>The products \<^verbatim>\<open>c * 1000\<close> and quotients \<^verbatim>\<open>v / 1000\<close> of the source.\<close>

definition times_1000 :: "double \<Rightarrow> double" where
  "times_1000 c = (case c of NaN \<Rightarrow> NaN | Infinity s \<Rightarrow> Infinity s
                   | Finite s m \<Rightarrow> round_to_double s (m * 1000))"

definition divide_1000 :: "double \<Rightarrow> double" where
  "divide_1000 v = (case v of NaN \<Rightarrow> NaN | Infinity s \<Rightarrow> Infinity s
                    | Finite s m \<Rightarrow> round_to_double s (m / 1000))"

text \<open>
  \<^verbatim>\<open>Math.round(v)\<close>: the integer closest to \<open>v\<close>, the larger one when two are
  equally close; the result is exact. A result of zero keeps the sign of \<open>v\<close>
  (\<^verbatim>\<open>Math.round(-0.2)\<close> is \<^verbatim>\<open>-0\<close>); NaN and the infinities are returned as they are.
\<close>

definition Math_round :: "double \<Rightarrow> double" where
  "Math_round v =
     (case v of NaN \<Rightarrow> NaN | Infinity s \<Rightarrow> Infinity s
      | Finite s m \<Rightarrow>
          (let k = \<lfloor>(if s then - m else m) + 1 / 2\<rfloor>
           in if k = 0 then Finite s 0 else Finite (k < 0) (of_int \<bar>k\<bar>)))"

section \<open>Landmarks and coordinate rounding (poseDetector.js)\<close>

text \<open>
  A landmark as MediaPipe delivers it: an object with numeric properties \<^verbatim>\<open>x\<close>,
  \<^verbatim>\<open>y\<close>, \<^verbatim>\<open>z\<close>.
\<close>

datatype landmark = Landmark (lm_x: double) (lm_y: double) (lm_z: double)

text \<open>The expression \<^verbatim>\<open>Math.round(c * 1000) / 1000\<close> applied to every coordinate.\<close>

definition round3 :: "double \<Rightarrow> double" where
  "round3 c = divide_1000 (Math_round (times_1000 c))"

text \<open>
  The arrow function \<^verbatim>\<open>lm => [round(lm.x), round(lm.y), round(lm.z)]\<close> used for
  pose, hand and face landmarks alike.
\<close>

type_synonym coords = "double \<times> double \<times> double"

definition roundLandmark :: "landmark \<Rightarrow> coords" where
  "roundLandmark lm = (round3 (lm_x lm), round3 (lm_y lm), round3 (lm_z lm))"

text \<open>
  The rounding the specification names, written from its words for comparison: the
  coordinate's value rounded half away from zero to 3 decimal places, stored as the
  nearest binary64 value.
\<close>

definition round_half_away_from_zero :: "rat \<Rightarrow> int" where
  "round_half_away_from_zero v = (if 0 \<le> v then \<lfloor>v + 1 / 2\<rfloor> else - \<lfloor>- v + 1 / 2\<rfloor>)"

definition spec_round3 :: "double \<Rightarrow> double" where
  "spec_round3 c =
     (case c of NaN \<Rightarrow> NaN | Infinity s \<Rightarrow> Infinity s
      | Finite s m \<Rightarrow>
          round_to_double s
            (of_int \<bar>round_half_away_from_zero ((if s then - m else m) * 1000)\<bar> / 1000))"

section \<open>Detection results and frame records\<close>

text \<open>
  What the three MediaPipe solutions pass to their \<^verbatim>\<open>onResults\<close> handlers. A property
  that may be \<^verbatim>\<open>undefined\<close> is an option; \<open>multiHandedness\<close> holds the
  \<^verbatim>\<open>label\<close> of each entry, and an absent array is the empty list (reading any index
  of either gives \<^verbatim>\<open>undefined\<close>).
\<close>

record pose_results =
  poseLandmarks :: "landmark list option"

record hands_results =
  multiHandLandmarks :: "landmark list list option"
  multiHandedness :: "string list"

record face_results =
  multiFaceLandmarks :: "landmark list list option"

text \<open>The object literal \<^verbatim>\<open>skeletalData\<close>.\<close>

record skeletalData =
  timestamp :: nat
  frame_id :: nat
  pose_landmarks :: "coords list option"
  left_hand :: "coords list option"
  right_hand :: "coords list option"
  face_landmarks :: "coords list option"

section \<open>PoseDetector\<close>

text \<open>
  The fields of the class that the modelled methods read or write. \<open>onFrameCallback\<close>
  records whether a callback is registered (the only callback ever registered is
  \<^verbatim>\<open>frames => this.onFrameBatch(frames)\<close> of the app). The MediaPipe handles, the
  canvas and its context are not modelled; the video element belongs to the page and is
  part of the app's state below.
\<close>

record PoseDetector =
  isInitialized :: bool
  frameBuffer :: "skeletalData list"
  onFrameCallback :: bool
  currentHandsData :: "hands_results option"
  currentPoseData :: "pose_results option"
  currentFaceData :: "face_results option"

definition new_PoseDetector :: PoseDetector where
  "new_PoseDetector = \<lparr>isInitialized = False, frameBuffer = [], onFrameCallback = False,
     currentHandsData = None, currentPoseData = None, currentFaceData = None\<rparr>"

definition initialize :: "PoseDetector \<Rightarrow> PoseDetector" where
  "initialize det = det\<lparr>isInitialized := True\<rparr>"

definition onHandsResults :: "hands_results \<Rightarrow> PoseDetector \<Rightarrow> PoseDetector" where
  "onHandsResults results det = det\<lparr>currentHandsData := Some results\<rparr>"

definition onFaceResults :: "face_results \<Rightarrow> PoseDetector \<Rightarrow> PoseDetector" where
  "onFaceResults results det = det\<lparr>currentFaceData := Some results\<rparr>"

subsection \<open>extractSkeletalData\<close>

text \<open>
  The \<^verbatim>\<open>forEach\<close> over \<open>multiHandLandmarks\<close>: \<open>idx\<close> is the index of the next hand,
  the pair holds \<open>left_hand\<close> and \<open>right_hand\<close> as assigned so far. Reading
  \<^verbatim>\<open>multiHandedness[index].label\<close> past the end throws.
\<close>

fun extractHands ::
  "string list \<Rightarrow> nat \<Rightarrow> landmark list list \<Rightarrow> coords list option \<times> coords list option
    \<Rightarrow> js_error + (coords list option \<times> coords list option)" where
  "extractHands labels idx [] acc = Inr acc"
| "extractHands labels idx (landmarks # rest) (l, r) =
     (if idx < length labels then
        (let handedness = labels ! idx;
             handData = map roundLandmark landmarks
         in if handedness = ''Left''
            then extractHands labels (Suc idx) rest (Some handData, r)
            else extractHands labels (Suc idx) rest (l, Some handData))
      else Inl TypeError)"

definition keyIndices :: "nat list" where
  "keyIndices = [10, 152, 234, 454, 70, 300]"

text \<open>
  \<^verbatim>\<open>keyIndices.map(idx => [... faceLandmarks[idx].x ...])\<close>: a key index past the end
  of the face's landmark array reads \<^verbatim>\<open>undefined.x\<close> and throws.
\<close>

definition extractFace :: "landmark list \<Rightarrow> js_error + coords list" where
  "extractFace faceLandmarks =
     (if list_all (\<lambda>idx. idx < length faceLandmarks) keyIndices
      then Inr (map (\<lambda>idx. roundLandmark (faceLandmarks ! idx)) keyIndices)
      else Inl TypeError)"

text \<open>
  Lines 135 to 179 of \<^verbatim>\<open>extractSkeletalData\<close>: the record is composed from the
  detector's current data; \<open>now\<close> is the reading of \<^verbatim>\<open>Date.now()\<close>.
\<close>

definition composeSkeletalData :: "nat \<Rightarrow> PoseDetector \<Rightarrow> js_error + skeletalData" where
  "composeSkeletalData now det =
     (let pose = (case currentPoseData det of None \<Rightarrow> None
                  | Some p \<Rightarrow> (case poseLandmarks p of None \<Rightarrow> None
                              | Some lms \<Rightarrow> Some (map roundLandmark lms)));
          hands = (case currentHandsData det of None \<Rightarrow> Inr (None, None)
                   | Some h \<Rightarrow> (case multiHandLandmarks h of None \<Rightarrow> Inr (None, None)
                               | Some hs \<Rightarrow> extractHands (multiHandedness h) 0 hs (None, None)));
          face = (case currentFaceData det of None \<Rightarrow> Inr None
                  | Some f \<Rightarrow> (case multiFaceLandmarks f of None \<Rightarrow> Inr None
                              | Some [] \<Rightarrow> Inr None
                              | Some (faceLandmarks # _) \<Rightarrow>
                                  (case extractFace faceLandmarks of Inl e \<Rightarrow> Inl e
                                   | Inr fl \<Rightarrow> Inr (Some fl))))
      in case hands of Inl e \<Rightarrow> Inl e
         | Inr (l, r) \<Rightarrow>
             (case face of Inl e \<Rightarrow> Inl e
              | Inr fl \<Rightarrow>
                  Inr \<lparr>timestamp = now, frame_id = length (frameBuffer det),
                       pose_landmarks = pose, left_hand = l, right_hand = r,
                       face_landmarks = fl\<rparr>))"

text \<open>
  Lines 181 to 188: the record is pushed; when the buffer has reached the batch size, a
  copy of it goes to the callback, if there is one, and the buffer is emptied. The second
  component is the argument of the callback call, \<open>None\<close> when no call is made.
\<close>

definition pushFrame ::
  "config \<Rightarrow> PoseDetector \<Rightarrow> skeletalData \<Rightarrow> PoseDetector \<times> skeletalData list option" where
  "pushFrame cfg det rec =
     (let buf = frameBuffer det @ [rec]
      in if length buf \<ge> FRAME_BATCH_SIZE cfg
         then (det\<lparr>frameBuffer := []\<rparr>, if onFrameCallback det then Some buf else None)
         else (det\<lparr>frameBuffer := buf\<rparr>, None))"

definition extractSkeletalData ::
  "config \<Rightarrow> nat \<Rightarrow> PoseDetector \<Rightarrow> js_error + (PoseDetector \<times> skeletalData list option)" where
  "extractSkeletalData cfg now det =
     (case composeSkeletalData now det of
        Inl e \<Rightarrow> Inl e
      | Inr rec \<Rightarrow> Inr (pushFrame cfg det rec))"

text \<open>
  \<^verbatim>\<open>drawHands\<close> reads \<^verbatim>\<open>multiHandedness[index].label\<close> for every detected hand, as
  the extraction does, and throws where it is missing; the canvas is not modelled.
\<close>

definition drawHands :: "hands_results option \<Rightarrow> js_error + unit" where
  "drawHands handsData =
     (case handsData of None \<Rightarrow> Inr ()
      | Some h \<Rightarrow> (case multiHandLandmarks h of None \<Rightarrow> Inr ()
                  | Some hs \<Rightarrow> if length hs \<le> length (multiHandedness h) then Inr ()
                              else Inl TypeError))"

text \<open>
  \<^verbatim>\<open>onPoseResults\<close>: stores the results, redraws, then extracts. The result is the
  detector afterwards and either the error thrown or the argument of the callback call.
\<close>

definition onPoseResults ::
  "config \<Rightarrow> nat \<Rightarrow> pose_results \<Rightarrow> PoseDetector
    \<Rightarrow> PoseDetector \<times> (js_error + skeletalData list option)" where
  "onPoseResults cfg now results det =
     (let det1 = det\<lparr>currentPoseData := Some results\<rparr>
      in case drawHands (currentHandsData det1) of
           Inl e \<Rightarrow> (det1, Inl e)
         | Inr _ \<Rightarrow>
             (case extractSkeletalData cfg now det1 of
                Inl e \<Rightarrow> (det1, Inl e)
              | Inr (det2, out) \<Rightarrow> (det2, Inr out)))"

text \<open>
  A run of the accumulator: one \<^verbatim>\<open>extractSkeletalData\<close> call per observation, where an
  observation is the clock reading and the detector's current pose, hands and face data
  at the moment of the call. A call that throws pushes nothing. The result is the
  detector afterwards and the arguments of the callback calls, in order.
\<close>

type_synonym observation =
  "nat \<times> pose_results option \<times> hands_results option \<times> face_results option"

definition observe :: "observation \<Rightarrow> PoseDetector \<Rightarrow> PoseDetector" where
  "observe ob det =
     (case ob of (now, p, h, f) \<Rightarrow>
        det\<lparr>currentPoseData := p, currentHandsData := h, currentFaceData := f\<rparr>)"

fun extractAll ::
  "config \<Rightarrow> PoseDetector \<Rightarrow> observation list \<Rightarrow> PoseDetector \<times> skeletalData list list" where
  "extractAll cfg det [] = (det, [])"
| "extractAll cfg det (ob # obs) =
     (case extractSkeletalData cfg (fst ob) (observe ob det) of
        Inl e \<Rightarrow> extractAll cfg (observe ob det) obs
      | Inr (det', out) \<Rightarrow>
          (case extractAll cfg det' obs of
             (det'', batches) \<Rightarrow>
               (det'', (case out of None \<Rightarrow> [] | Some b \<Rightarrow> [b]) @ batches)))"

text \<open>
  The records of a run in arrival order, without their \<open>frame_id\<close> (set to 0): what
  each successful call composed from its observation.
\<close>

definition payload :: "skeletalData \<Rightarrow> skeletalData" where
  "payload rec = rec\<lparr>frame_id := 0\<rparr>"

definition arrivals :: "observation list \<Rightarrow> skeletalData list" where
  "arrivals obs =
     concat (map (\<lambda>ob. case composeSkeletalData (fst ob) (observe ob new_PoseDetector) of
                          Inl e \<Rightarrow> [] | Inr rec \<Rightarrow> [payload rec]) obs)"

section \<open>JSON values and HTTP (apiClient.js)\<close>

text \<open>
  A value produced by \<^verbatim>\<open>response.json()\<close>. A number is represented by the string that
  JavaScript's number-to-string conversion gives for it (so \<open>JNum ''0''\<close> is zero); an
  object by its members in source order.
\<close>

datatype json =
    JNull
  | JBool bool
  | JNum string
  | JStr string
  | JArr "json list"
  | JObj "(string \<times> json) list"

text \<open>JavaScript truthiness of such a value.\<close>

fun truthy :: "json \<Rightarrow> bool" where
  "truthy JNull = False"
| "truthy (JBool b) = b"
| "truthy (JNum n) = (n \<noteq> ''0'')"
| "truthy (JStr s) = (s \<noteq> [])"
| "truthy (JArr xs) = True"
| "truthy (JObj kvs) = True"

text \<open>
  Reading property \<open>name\<close> of a value, for the names the source reads (\<^verbatim>\<open>status\<close>,
  \<^verbatim>\<open>translation\<close>, \<^verbatim>\<open>words\<close>), none of which a primitive wrapper, an array or
  \<^verbatim>\<open>Object.prototype\<close> defines: \<^verbatim>\<open>null\<close> throws, an object gives its member (the
  last one of that name) or \<^verbatim>\<open>undefined\<close>, which is \<open>None\<close>; any other value gives
  \<^verbatim>\<open>undefined\<close>.
\<close>

fun get_prop :: "json \<Rightarrow> string \<Rightarrow> js_error + json option" where
  "get_prop JNull name = Inl TypeError"
| "get_prop (JObj kvs) name = Inr (map_of (rev kvs) name)"
| "get_prop v name = Inr None"

text \<open>
  String conversion, and \<^verbatim>\<open>Array.prototype.join\<close>, which writes \<^verbatim>\<open>null\<close> elements
  as the empty string. An object is converted by its \<^verbatim>\<open>toString\<close>: a parsed object with
  a member of that name has a value there that cannot be called, and the conversion
  throws; any other object gives \<^verbatim>\<open>[object Object]\<close>.
\<close>

fun js_toString :: "json \<Rightarrow> js_error + string"
  and js_join :: "string \<Rightarrow> json list \<Rightarrow> js_error + string" where
  "js_toString JNull = Inr ''null''"
| "js_toString (JBool b) = Inr (if b then ''true'' else ''false'')"
| "js_toString (JNum n) = Inr n"
| "js_toString (JStr s) = Inr s"
| "js_toString (JArr xs) = js_join '','' xs"
| "js_toString (JObj kvs) =
     (if ''toString'' \<in> set (map fst kvs) then Inl TypeError else Inr ''[object Object]'')"
| "js_join sep [] = Inr []"
| "js_join sep [v] = (if v = JNull then Inr [] else js_toString v)"
| "js_join sep (v # w # ws) =
     (case (if v = JNull then Inr [] else js_toString v) of
        Inl e \<Rightarrow> Inl e
      | Inr a \<Rightarrow>
          (case js_join sep (w # ws) of
             Inl e \<Rightarrow> Inl e
           | Inr b \<Rightarrow> Inr (a @ sep @ b)))"

text \<open>
  The text that assigning a value to \<^verbatim>\<open>textContent\<close> writes: \<^verbatim>\<open>undefined\<close> and
  \<^verbatim>\<open>null\<close> give the empty string, any other value its string conversion, which may
  throw.
\<close>

definition to_textContent :: "json option \<Rightarrow> js_error + string" where
  "to_textContent v =
     (case v of None \<Rightarrow> Inr [] | Some JNull \<Rightarrow> Inr [] | Some w \<Rightarrow> js_toString w)"

text \<open>
  How a \<^verbatim>\<open>fetch\<close> ends: it rejects, or it resolves with a response that has a status
  code and a body, \<open>None\<close> when the body is not valid JSON.
\<close>

datatype http_outcome = NetworkFailure | HttpResponse nat "json option"

definition fetch :: "http_outcome \<Rightarrow> js_error + (nat \<times> json option)" where
  "fetch out = (case out of NetworkFailure \<Rightarrow> Inl FetchError
                | HttpResponse st body \<Rightarrow> Inr (st, body))"

definition response_ok :: "nat \<Rightarrow> bool" where
  "response_ok st = (200 \<le> st \<and> st \<le> 299)"

definition response_json :: "json option \<Rightarrow> js_error + json" where
  "response_json body = (case body of None \<Rightarrow> Inl SyntaxError | Some j \<Rightarrow> Inr j)"

text \<open>
  \<^verbatim>\<open>translate\<close>, from the point where its \<^verbatim>\<open>fetch\<close> settles with \<open>out\<close>. The
  \<^verbatim>\<open>catch\<close> block logs and rethrows, so an error passes through unchanged.
\<close>

definition translate :: "http_outcome \<Rightarrow> js_error + json" where
  "translate out =
     (case (case fetch out of
              Inl e \<Rightarrow> Inl e
            | Inr (st, body) \<Rightarrow>
                if \<not> response_ok st then Inl (ApiError st) else response_json body) of
        Inl error \<Rightarrow> Inl error
      | Inr result \<Rightarrow> Inr result)"

text \<open>
  \<^verbatim>\<open>healthCheck\<close>, likewise: the \<^verbatim>\<open>catch\<close> block logs and returns \<^verbatim>\<open>null\<close>.
\<close>

definition healthCheck :: "http_outcome \<Rightarrow> js_error + json" where
  "healthCheck out =
     (case (case fetch out of
              Inl e \<Rightarrow> Inl e
            | Inr (st, body) \<Rightarrow> response_json body) of
        Inl error \<Rightarrow> Inr JNull
      | Inr health \<Rightarrow> Inr health)"

section \<open>The app (js/app.js)\<close>

text \<open>
  The page elements the app writes: the \<^verbatim>\<open>srcObject\<close> of the video (a stream whose
  tracks are live or stopped), the text and class of the status line, the translation
  and words texts, and the \<^verbatim>\<open>style.display\<close> of the two buttons.
\<close>

datatype media_stream = MediaStream (tracks_live: bool)

record elements =
  video_srcObject :: "media_stream option"
  status_textContent :: string
  status_className :: string
  translation_textContent :: string
  words_textContent :: string
  startBtn_display :: string
  stopBtn_display :: string

text \<open>
  The fields of \<^verbatim>\<open>App\<close>, and two lists that record its traffic with the translation
  service: \<open>posted\<close> holds the frames of every \<^verbatim>\<open>POST /translate\<close> issued so far,
  \<open>in_flight\<close> those whose \<^verbatim>\<open>fetch\<close> has not settled yet. (The \<^verbatim>\<open>timestamp\<close> of
  the request body is not modelled.)
\<close>

record App =
  poseDetector :: "PoseDetector option"
  isRunning :: bool
  elements :: elements
  in_flight :: "skeletalData list list"
  posted :: "skeletalData list list"

definition updateStatus :: "App \<Rightarrow> string \<Rightarrow> string \<Rightarrow> App" where
  "updateStatus app message className =
     app\<lparr>elements := (elements app)\<lparr>status_textContent := message,
                                       status_className := ''status '' @ className\<rparr>\<rparr>"

subsection \<open>checkAPIHealth\<close>

text \<open>
  An \<^verbatim>\<open>async\<close> method is modelled in two parts: what runs up to its \<^verbatim>\<open>await\<close>, and
  what runs when the awaited request has settled with \<open>out\<close>.
\<close>

definition checkAPIHealth_begin :: "App \<Rightarrow> App" where
  "checkAPIHealth_begin app = updateStatus app ''Checking API connection...'' []"

definition health_ok :: "json \<Rightarrow> bool" where
  "health_ok health =
     (truthy health \<and> get_prop health ''status'' = Inr (Some (JStr ''ok'')))"

definition checkAPIHealth_resume :: "App \<Rightarrow> http_outcome \<Rightarrow> App" where
  "checkAPIHealth_resume app out =
     (case healthCheck out of
        Inl e \<Rightarrow> app
      | Inr health \<Rightarrow>
          if health_ok health
          then updateStatus app ''Ready to start'' []
          else updateStatus app ''API connection failed. Check backend.'' [])"

text \<open>The constructor, given the page as loaded.\<close>

definition new_App :: "elements \<Rightarrow> App" where
  "new_App page =
     checkAPIHealth_begin
       \<lparr>poseDetector = None, isRunning = False, elements = page, in_flight = [], posted = []\<rparr>"

subsection \<open>start and stop\<close>

text \<open>
  \<^verbatim>\<open>start\<close>, given how \<^verbatim>\<open>getUserMedia\<close> ends: with the \<^verbatim>\<open>message\<close> of its
  rejection, or with a stream. The video is taken to report its metadata and the MediaPipe
  constructors to succeed; the status texts written on the way are overwritten by the
  last one.
\<close>

definition start :: "App \<Rightarrow> string + media_stream \<Rightarrow> App" where
  "start app camera =
     (case camera of
        Inl message \<Rightarrow>
          updateStatus (updateStatus app ''Requesting camera permission...'' [])
            (''Error: '' @ message) []
      | Inr stream \<Rightarrow>
          (let app1 = updateStatus app ''Requesting camera permission...'' [];
               app2 = updateStatus app1 ''Initializing pose detection...'' [];
               det = (initialize new_PoseDetector)\<lparr>onFrameCallback := True\<rparr>;
               app3 = app2\<lparr>poseDetector := Some det,
                            elements := (elements app2)\<lparr>video_srcObject := Some stream\<rparr>\<rparr>;
               app4 = app3\<lparr>isRunning := True,
                            elements := (elements app3)\<lparr>startBtn_display := ''none'',
                                                         stopBtn_display := ''block''\<rparr>\<rparr>
           in updateStatus app4 ''Active - Start signing!'' ''active''))"

text \<open>
  \<^verbatim>\<open>PoseDetector.stop\<close> stops the tracks of the video's stream, if it has one, and
  touches nothing else: the detector's fields, \<open>frameBuffer\<close> among them, stay.
\<close>

definition PoseDetector_stop :: "media_stream option \<Rightarrow> media_stream option" where
  "PoseDetector_stop srcObject =
     (case srcObject of None \<Rightarrow> None | Some s \<Rightarrow> Some (MediaStream False))"

definition stop :: "App \<Rightarrow> App" where
  "stop app =
     (let app1 = app\<lparr>isRunning := False\<rparr>;
          app2 = (if poseDetector app1 \<noteq> None
                  then app1\<lparr>elements := (elements app1)\<lparr>video_srcObject :=
                                PoseDetector_stop (video_srcObject (elements app1))\<rparr>\<rparr>
                  else app1);
          app3 = app2\<lparr>elements := (elements app2)\<lparr>startBtn_display := ''block'',
                                                    stopBtn_display := ''none''\<rparr>\<rparr>;
          app4 = updateStatus app3 ''Stopped'' []
      in app4\<lparr>elements := (elements app4)\<lparr>translation_textContent := ''Start signing...'',
                                            words_textContent := []\<rparr>\<rparr>)"

subsection \<open>onFrameBatch\<close>

text \<open>
  Up to the \<^verbatim>\<open>await\<close>: the guard, the status update, and the \<^verbatim>\<open>fetch\<close> that
  \<^verbatim>\<open>translate\<close> issues at once.
\<close>

definition onFrameBatch_begin :: "App \<Rightarrow> skeletalData list \<Rightarrow> App" where
  "onFrameBatch_begin app frames =
     (if \<not> isRunning app then app
      else (updateStatus app ''Processing...'' ''processing'')
             \<lparr>in_flight := in_flight app @ [frames], posted := posted app @ [frames]\<rparr>)"

text \<open>
  \<^verbatim>\<open>result.words.join(', ')\<close>: only an array has a \<^verbatim>\<open>join\<close> that can be called.
\<close>

definition words_join :: "json \<Rightarrow> js_error + string" where
  "words_join result =
     (case get_prop result ''words'' of
        Inl e \<Rightarrow> Inl e
      | Inr None \<Rightarrow> Inl TypeError
      | Inr (Some (JArr ws)) \<Rightarrow> js_join '', '' ws
      | Inr (Some w) \<Rightarrow> Inl TypeError)"

text \<open>
  After the \<^verbatim>\<open>await\<close>, when the request has settled with \<open>out\<close>: the two texts are
  written one after the other, so an error in the second leaves the first written; the
  \<^verbatim>\<open>catch\<close> block writes the failure status.
\<close>

definition onFrameBatch_resume :: "App \<Rightarrow> http_outcome \<Rightarrow> App" where
  "onFrameBatch_resume app out =
     (case translate out of
        Inl error \<Rightarrow> updateStatus app ''Translation failed. Retrying...'' []
      | Inr result \<Rightarrow>
          (case get_prop result ''translation'' of
             Inl error \<Rightarrow> updateStatus app ''Translation failed. Retrying...'' []
           | Inr t \<Rightarrow>
               (case to_textContent t of
                  Inl error \<Rightarrow> updateStatus app ''Translation failed. Retrying...'' []
                | Inr text \<Rightarrow>
                    (let app1 = app\<lparr>elements := (elements app)\<lparr>translation_textContent :=
                                       text\<rparr>\<rparr>
                     in case words_join result of
                          Inl error \<Rightarrow>
                            updateStatus app1 ''Translation failed. Retrying...'' []
                        | Inr joined \<Rightarrow>
                            updateStatus
                              (app1\<lparr>elements := (elements app1)\<lparr>words_textContent :=
                                       ''Recognized: '' @ joined\<rparr>\<rparr>)
                              ''Active - Start signing!'' ''active''))))"

subsection \<open>Events\<close>

text \<open>
  What can happen to a running page, one event per turn of the event loop: a detection
  result arrives, request number \<open>i\<close> of \<open>in_flight\<close> settles, the health probe
  settles, a button is clicked. A batch released by the detector goes to
  \<^verbatim>\<open>onFrameBatch\<close> through the registered callback, in the same turn.
\<close>

datatype event =
    HandsResults hands_results
  | PoseResults nat pose_results
  | FaceResults face_results
  | TranslateSettled nat http_outcome
  | HealthSettled http_outcome
  | StartClicked "string + media_stream"
  | StopClicked

definition translate_settled :: "App \<Rightarrow> nat \<Rightarrow> http_outcome \<Rightarrow> App" where
  "translate_settled app i out =
     (if i < length (in_flight app)
      then onFrameBatch_resume
             (app\<lparr>in_flight := take i (in_flight app) @ drop (Suc i) (in_flight app)\<rparr>) out
      else app)"

fun step :: "config \<Rightarrow> App \<Rightarrow> event \<Rightarrow> App" where
  "step cfg app (HandsResults results) =
     app\<lparr>poseDetector := map_option (onHandsResults results) (poseDetector app)\<rparr>"
| "step cfg app (FaceResults results) =
     app\<lparr>poseDetector := map_option (onFaceResults results) (poseDetector app)\<rparr>"
| "step cfg app (PoseResults now results) =
     (case poseDetector app of
        None \<Rightarrow> app
      | Some det \<Rightarrow>
          (case onPoseResults cfg now results det of
             (det', Inr (Some frames)) \<Rightarrow>
               onFrameBatch_begin (app\<lparr>poseDetector := Some det'\<rparr>) frames
           | (det', _) \<Rightarrow> app\<lparr>poseDetector := Some det'\<rparr>))"
| "step cfg app (TranslateSettled i out) = translate_settled app i out"
| "step cfg app (HealthSettled out) = checkAPIHealth_resume app out"
| "step cfg app (StartClicked camera) = start app camera"
| "step cfg app StopClicked = stop app"

definition run :: "config \<Rightarrow> App \<Rightarrow> event list \<Rightarrow> App" where
  "run cfg app evs = foldl (step cfg) app evs"

section \<open>Definitions used in the statements and proofs\<close>

text \<open>
  The invariant of the accumulator between two calls: a callback is registered, the
  buffer is shorter than the batch size, and the buffered records are numbered from 0.
\<close>

definition buffer_inv :: "nat \<Rightarrow> PoseDetector \<Rightarrow> bool" where
  "buffer_inv B det \<longleftrightarrow> onFrameCallback det \<and> length (frameBuffer det) < B
     \<and> map frame_id (frameBuffer det) = [0..<length (frameBuffer det)]"

text \<open>
  Concrete values for the examples: a configuration with batch size 2, the detector as
  \<^verbatim>\<open>start\<close> sets it up, and a pose-only observation at a given time.
\<close>

definition config2 :: config where
  "config2 = CONFIG\<lparr>FRAME_BATCH_SIZE := 2\<rparr>"

definition started_detector :: PoseDetector where
  "started_detector = (initialize new_PoseDetector)\<lparr>onFrameCallback := True\<rparr>"

definition pose_only :: pose_results where
  "pose_only = \<lparr>poseLandmarks =
     Some [Landmark (Finite False (1 / 2)) (Finite False (1 / 4)) (Finite True (1 / 16))]\<rparr>"

definition pose_at :: "nat \<Rightarrow> observation" where
  "pose_at t = (t, Some pose_only, None, None)"

text \<open>The record the started detector composes from that observation at time 7.\<close>

definition pose_record :: skeletalData where
  "pose_record = \<lparr>timestamp = 7, frame_id = 0,
     pose_landmarks = Some [(round3 (Finite False (1 / 2)), round3 (Finite False (1 / 4)),
                             round3 (Finite True (1 / 16)))],
     left_hand = None, right_hand = None, face_landmarks = None\<rparr>"

text \<open>
  The landmark part of a record: everything but \<open>timestamp\<close> and \<open>frame_id\<close>.
\<close>

definition landmark_fields ::
  "skeletalData \<Rightarrow>
    coords list option \<times> coords list option \<times> coords list option \<times> coords list option" where
  "landmark_fields rec = (pose_landmarks rec, left_hand rec, right_hand rec, face_landmarks rec)"

text \<open>
  All coordinate triples a record stores, and all landmarks the detector currently holds
  (of the face results, those of the first face).
\<close>

definition field_coords :: "coords list option \<Rightarrow> coords list" where
  "field_coords field = (case field of None \<Rightarrow> [] | Some cs \<Rightarrow> cs)"

definition stored_coords :: "skeletalData \<Rightarrow> coords list" where
  "stored_coords rec =
     field_coords (pose_landmarks rec) @ field_coords (left_hand rec)
     @ field_coords (right_hand rec) @ field_coords (face_landmarks rec)"

definition detected_landmarks :: "PoseDetector \<Rightarrow> landmark list" where
  "detected_landmarks det =
     (case currentPoseData det of None \<Rightarrow> []
      | Some p \<Rightarrow> (case poseLandmarks p of None \<Rightarrow> [] | Some lms \<Rightarrow> lms))
     @ (case currentHandsData det of None \<Rightarrow> []
        | Some h \<Rightarrow> (case multiHandLandmarks h of None \<Rightarrow> [] | Some hs \<Rightarrow> concat hs))
     @ (case currentFaceData det of None \<Rightarrow> []
        | Some f \<Rightarrow> (case multiFaceLandmarks f of None \<Rightarrow> [] | Some [] \<Rightarrow> []
                    | Some (faceLandmarks # _) \<Rightarrow> faceLandmarks))"

text \<open>
  A coordinate of moderate size: NaN, an infinity, or a finite value of magnitude at most
  \<open>10 ^ 12\<close>.
\<close>

definition moderate :: "double \<Rightarrow> bool" where
  "moderate c = (case c of Finite s m \<Rightarrow> 0 \<le> m \<and> m \<le> 10 ^ 12 | _ \<Rightarrow> True)"

text \<open>
  The binary64 values nearest to \<open>0.4995\<close> and to \<open>4426392910172.446\<close>.
\<close>

definition double_0_4995 :: double where
  "double_0_4995 = Finite False (8998192055486251 / 18014398509481984)"

definition double_4426392910172_446 :: double where
  "double_4426392910172_446 = Finite False (4532626340016585 / 1024)"

text \<open>
  A page with empty texts and no stream; the app after a successful \<^verbatim>\<open>start\<close> on it;
  that app after 30 pose results under \<open>CONFIG\<close>, when its first batch has been
  submitted and the request is still in flight; and two responses of the service.
\<close>

definition blank_page :: elements where
  "blank_page = \<lparr>video_srcObject = None, status_textContent = [], status_className = [],
     translation_textContent = [], words_textContent = [], startBtn_display = [],
     stopBtn_display = []\<rparr>"

definition running_app :: App where
  "running_app = start (new_App blank_page) (Inr (MediaStream True))"

definition submitting_app :: App where
  "submitting_app = run CONFIG running_app (replicate 30 (PoseResults 5 pose_only))"

definition hello_response :: http_outcome where
  "hello_response = HttpResponse 200
     (Some (JObj [(''translation'', JStr ''hello''),
                  (''words'', JArr [JStr ''hello'', JStr ''world''])]))"

definition down_response :: http_outcome where
  "down_response = HttpResponse 200 (Some (JObj [(''status'', JStr ''down'')]))"

section \<open>Binary64 rounding\<close>

lemma pow2_pos [simp]: "0 < (2::rat) powi e"
  by (simp add: zero_less_power_int)

lemma pow2_add: "(2::rat) powi (a + b) = 2 powi a * 2 powi b"
  by (simp add: power_int_add)

lemma pow2_diff: "(2::rat) powi (a - b) = 2 powi a / 2 powi b"
  by (simp add: power_int_diff)

lemma pow2_mono: "a \<le> b \<Longrightarrow> (2::rat) powi a \<le> 2 powi b"
  by (simp add: power_int_increasing)

lemma pow2_less_cancel: "(2::rat) powi a < 2 powi b \<Longrightarrow> a < b"
  using pow2_mono [of b a] by (cases "a < b") auto

lemma ilog2_bounds:
  "0 < n \<Longrightarrow> 0 \<le> ilog2 n \<and> (2::int) ^ nat (ilog2 n) \<le> n \<and> n < 2 * 2 ^ nat (ilog2 n)"
proof (induction n rule: ilog2.induct)
  case (1 n)
  show ?case
  proof (cases "n < 2")
    case True
    with "1.prems" show ?thesis
      by (simp add: ilog2.simps)
  next
    case False
    then have pos: "0 < n div 2" by simp
    from "1.IH" [OF False pos]
    have ih: "0 \<le> ilog2 (n div 2)" "(2::int) ^ nat (ilog2 (n div 2)) \<le> n div 2"
      "n div 2 < 2 * 2 ^ nat (ilog2 (n div 2))"
      by simp_all
    have il: "ilog2 n = 1 + ilog2 (n div 2)"
      using False by (subst ilog2.simps) simp
    have nt: "nat (ilog2 n) = Suc (nat (ilog2 (n div 2)))"
      using ih(1) il by simp
    show ?thesis
      using ih il unfolding nt by (simp, linarith)
  qed
qed

lemma ilog2_pow2:
  assumes "0 < n"
  shows "(2::rat) powi (ilog2 n) \<le> of_int n" and "of_int n < (2::rat) powi (ilog2 n + 1)"
proof -
  from ilog2_bounds [OF assms]
  have nn: "0 \<le> ilog2 n" and lo: "(2::int) ^ nat (ilog2 n) \<le> n"
    and hi: "n < 2 * 2 ^ nat (ilog2 n)"
    by simp_all
  have "(of_int ((2::int) ^ nat (ilog2 n)) :: rat) \<le> of_int n"
    using lo by (simp only: of_int_le_iff)
  then show "(2::rat) powi (ilog2 n) \<le> of_int n"
    using nn by (simp add: power_int_nonneg_exp)
  have "(of_int n :: rat) < of_int (2 * 2 ^ nat (ilog2 n))"
    using hi by (simp only: of_int_less_iff)
  then show "of_int n < (2::rat) powi (ilog2 n + 1)"
    using nn by (simp add: power_int_nonneg_exp nat_add_distrib)
qed

lemma floor_log2_bounds:
  assumes "0 < x"
  shows "2 powi (floor_log2 x) \<le> x" and "x < 2 powi (floor_log2 x + 1)"
proof -
  obtain p q where pq: "quotient_of x = (p, q)"
    by (cases "quotient_of x")
  have q: "0 < q" using pq by (rule quotient_of_denom_pos)
  have x: "x = of_int p / of_int q" using pq by (rule quotient_of_div)
  have p: "0 < p"
    using assms q unfolding x by (simp add: zero_less_divide_iff)
  define c where "c = ilog2 p - ilog2 q"
  note P = ilog2_pow2 [OF p] and Q = ilog2_pow2 [OF q]
  have qpos: "(0::rat) < of_int q" using q by simp
  have "x * of_int q = of_int p" using q unfolding x by simp
  have up: "x < 2 powi (c + 1)"
  proof -
    have "of_int p < (2::rat) powi (ilog2 p + 1)" by (rule P(2))
    also have "\<dots> = 2 powi (c + 1) * 2 powi (ilog2 q)"
      unfolding c_def by (simp add: pow2_add [symmetric])
    also have "\<dots> \<le> 2 powi (c + 1) * of_int q"
      using Q(1) by (simp add: mult_left_mono)
    finally have "of_int p / of_int q < (2::rat) powi (c + 1)"
      using qpos by (simp add: pos_divide_less_eq)
    then show ?thesis unfolding x .
  qed
  have lo: "2 powi (c - 1) \<le> x"
  proof -
    have "(2::rat) powi (c - 1) * of_int q \<le> 2 powi (c - 1) * 2 powi (ilog2 q + 1)"
      using Q(2) by (simp add: mult_left_mono)
    also have "\<dots> = 2 powi (ilog2 p)"
      unfolding c_def by (simp add: pow2_add [symmetric])
    also have "\<dots> \<le> of_int p" by (rule P(1))
    finally have "(2::rat) powi (c - 1) \<le> of_int p / of_int q"
      using qpos by (simp add: pos_le_divide_eq)
    then show ?thesis unfolding x .
  qed
  have fl: "floor_log2 x = (if 2 powi c \<le> x then c else c - 1)"
    unfolding floor_log2_def pq c_def by (simp add: Let_def)
  show "2 powi (floor_log2 x) \<le> x"
    using lo unfolding fl by simp
  show "x < 2 powi (floor_log2 x + 1)"
    using up unfolding fl by (simp add: not_le)
qed

lemma round_half_even_err: "\<bar>of_int (round_half_even n) - n\<bar> \<le> 1 / 2"
proof -
  have "of_int \<lfloor>n\<rfloor> \<le> n" "n < of_int \<lfloor>n\<rfloor> + 1"
    by linarith+
  then show ?thesis
    unfolding round_half_even_def Let_def by (auto simp add: abs_le_iff)
qed

lemma round_half_even_nonneg: "0 \<le> n \<Longrightarrow> 0 \<le> round_half_even n"
proof -
  assume "0 \<le> n"
  then have "0 \<le> \<lfloor>n\<rfloor>" by simp
  then show ?thesis
    unfolding round_half_even_def Let_def by auto
qed

lemma round_to_double_err:
  assumes pos: "0 < x" and small: "x < 2 powi 1023"
  shows "\<exists>y. round_to_double s x = Finite s y \<and> 0 \<le> y
    \<and> \<bar>y - x\<bar> \<le> 2 powi (max (floor_log2 x) (- 1022) - 53)"
proof -
  define e where "e = max (floor_log2 x) (- 1022)"
  define q :: rat where "q = 2 powi (e - 52)"
  define y where "y = of_int (round_half_even (x / q)) * q"
  have qpos: "0 < q" unfolding q_def by simp
  have "2 powi (floor_log2 x) < (2::rat) powi 1023"
    using floor_log2_bounds(1) [OF pos] small by simp
  then have "floor_log2 x < 1023"
    by (rule pow2_less_cancel)
  then have e: "e < 1023" unfolding e_def by simp
  have r: "round_to_double s x = Finite s y"
    using pos e unfolding round_to_double_def Let_def e_def [symmetric] q_def [symmetric] y_def
    by simp
  have "0 \<le> x / q" using pos qpos by simp
  then have ynn: "0 \<le> y"
    unfolding y_def using qpos round_half_even_nonneg [of "x / q"] by simp
  have "(of_int (round_half_even (x / q)) - x / q) * q = y - x"
    using qpos unfolding y_def by (simp add: left_diff_distrib)
  then have "\<bar>y - x\<bar> = \<bar>of_int (round_half_even (x / q)) - x / q\<bar> * \<bar>q\<bar>"
    by (simp only: abs_mult [symmetric])
  then have "\<bar>y - x\<bar> = \<bar>of_int (round_half_even (x / q)) - x / q\<bar> * q"
    using qpos by simp
  also have "\<dots> \<le> 1 / 2 * q"
    using round_half_even_err [of "x / q"] qpos by (simp add: mult_right_mono)
  also have "\<dots> = 2 powi (e - 53)"
    unfolding q_def using pow2_diff [of "e - 52" 1] by simp
  finally show ?thesis
    using r ynn unfolding e_def by blast
qed

lemma round_to_double_normal:
  assumes lo: "2 powi (- 1022) \<le> x" and small: "x < 2 powi 1023"
  shows "\<exists>y. round_to_double s x = Finite s y \<and> 0 \<le> y \<and> \<bar>y - x\<bar> \<le> x / 2 ^ 53"
proof -
  have pos: "0 < x"
    using lo pow2_pos [of "- 1022"] by linarith
  have "2 powi (- 1022) < (2::rat) powi (floor_log2 x + 1)"
    using lo floor_log2_bounds(2) [OF pos] by simp
  then have "- 1022 < floor_log2 x + 1"
    by (rule pow2_less_cancel)
  then have m: "max (floor_log2 x) (- 1022) = floor_log2 x"
    by simp
  have "(2::rat) powi (floor_log2 x - 53) = 2 powi (floor_log2 x) / 2 ^ 53"
    using pow2_diff [of "floor_log2 x" 53] by simp
  also have "\<dots> \<le> x / 2 ^ 53"
    using floor_log2_bounds(1) [OF pos] by (simp add: divide_right_mono)
  finally have "(2::rat) powi (floor_log2 x - 53) \<le> x / 2 ^ 53" .
  moreover obtain y where "round_to_double s x = Finite s y" "0 \<le> y"
    "\<bar>y - x\<bar> \<le> 2 powi (floor_log2 x - 53)"
    using round_to_double_err [OF pos small, of s] unfolding m by blast
  ultimately show ?thesis
    by (blast intro: order_trans)
qed


lemma tiny_le: "(2::rat) powi (- 1075) \<le> 1 / 2 ^ 64"
proof -
  have "(2::rat) powi (- 1075) \<le> 2 powi (- 64)"
    by (rule pow2_mono) simp
  then show ?thesis by simp
qed

lemma min_normal_le: "(2::rat) powi (- 1022) \<le> 1 / 2048"
proof -
  have "(2::rat) powi (- 1022) \<le> 2 powi (- 11)"
    by (rule pow2_mono) simp
  then show ?thesis by simp
qed

lemma below_max: "x \<le> 2 ^ 52 \<Longrightarrow> x < (2::rat) powi 1023"
proof -
  assume "x \<le> 2 ^ 52"
  moreover have "(2::rat) powi 52 < 2 powi 1023"
    by (rule power_int_strict_increasing) simp_all
  ultimately show ?thesis by simp
qed

lemma round_to_double_err2:
  assumes pos: "0 < x" and small: "x < 2 powi 1023"
  shows "\<exists>y. round_to_double s x = Finite s y \<and> 0 \<le> y
    \<and> \<bar>y - x\<bar> \<le> x / 2 ^ 53 + 2 powi (- 1075)"
proof -
  have a: "(2::rat) powi (floor_log2 x - 53) \<le> x / 2 ^ 53"
  proof -
    have "(2::rat) powi (floor_log2 x - 53) = 2 powi (floor_log2 x) / 2 ^ 53"
      using pow2_diff [of "floor_log2 x" 53] by simp
    also have "\<dots> \<le> x / 2 ^ 53"
      using floor_log2_bounds(1) [OF pos] by (simp add: divide_right_mono)
    finally show ?thesis .
  qed
  have nn: "0 \<le> x / 2 ^ 53" using pos by simp
  have "(2::rat) powi (max (floor_log2 x) (- 1022) - 53) \<le> x / 2 ^ 53 + 2 powi (- 1075)"
  proof (cases "floor_log2 x \<le> - 1022")
    case True
    then have eq: "max (floor_log2 x) (- 1022) - 53 = - 1075" by simp
    show ?thesis
      unfolding eq using nn by (rule add_increasing) (rule order_refl)
  next
    case False
    then have eq: "max (floor_log2 x) (- 1022) = floor_log2 x" by simp
    show ?thesis
      unfolding eq using a by (rule add_increasing2 [OF less_imp_le [OF pow2_pos]])
  qed
  moreover obtain y where "round_to_double s x = Finite s y" "0 \<le> y"
    "\<bar>y - x\<bar> \<le> 2 powi (max (floor_log2 x) (- 1022) - 53)"
    using round_to_double_err [OF pos small, of s] by blast
  ultimately show ?thesis
    by (blast intro: order_trans)
qed

lemma round_to_double_0 [simp]: "round_to_double s 0 = Finite s 0"
  by (simp add: round_to_double_def)

lemma Math_round_near:
  assumes k: "k \<noteq> 0" and close: "\<bar>w - of_int \<bar>k\<bar>\<bar> < 1 / 2"
  shows "Math_round (Finite (k < 0) w) = Finite (k < 0) (of_int \<bar>k\<bar>)"
proof -
  have "\<lfloor>(if k < 0 then - w else w) + 1 / 2\<rfloor> = k"
  proof (cases "k < 0")
    case True
    then have a: "(of_int \<bar>k\<bar> :: rat) = - of_int k" by simp
    have "\<lfloor>- w + 1 / 2\<rfloor> = k"
      using close unfolding a by (intro floor_unique) linarith+
    with True show ?thesis by simp
  next
    case False
    then have a: "(of_int \<bar>k\<bar> :: rat) = of_int k" by simp
    have "\<lfloor>w + 1 / 2\<rfloor> = k"
      using close unfolding a by (intro floor_unique) linarith+
    with False show ?thesis by simp
  qed
  then show ?thesis
    using k by (simp add: Math_round_def)
qed

lemma reround_integer:
  assumes k1: "k \<noteq> 0" and k2: "\<bar>k\<bar> \<le> 2 ^ 51 - 1"
  shows "Math_round (times_1000 (divide_1000 (Finite (k < 0) (of_int \<bar>k\<bar>))))
    = Finite (k < 0) (of_int \<bar>k\<bar>)"
proof -
  define n :: rat where "n = of_int \<bar>k\<bar>"
  have "1 \<le> \<bar>k\<bar>" using k1 by linarith
  then have "(of_int 1 :: rat) \<le> of_int \<bar>k\<bar>"
    by (simp only: of_int_le_iff)
  then have n1: "1 \<le> n" unfolding n_def by simp
  have "(of_int \<bar>k\<bar> :: rat) \<le> of_int (2 ^ 51 - 1)"
    using k2 by (simp only: of_int_le_iff)
  then have n2: "n \<le> 2 ^ 51 - 1" unfolding n_def by simp
  have lo: "2 powi (- 1022) \<le> n / 1000"
    using min_normal_le n1 by linarith
  have hi: "n / 1000 < 2 powi 1023"
    using n2 by (intro below_max) simp
  obtain y where y: "round_to_double (k < 0) (n / 1000) = Finite (k < 0) y" "0 \<le> y"
    "\<bar>y - n / 1000\<bar> \<le> n / 1000 / 2 ^ 53"
    using round_to_double_normal [OF lo hi] by blast
  have p53: "(2::rat) ^ 53 = 9007199254740992" and p51: "(2::rat) ^ 51 = 2251799813685248"
    and p52: "(2::rat) ^ 52 = 4503599627370496"
    by simp_all
  have q1: "n / 2 ^ 53 < 1 / 4"
    using n2 unfolding p53 p51 by simp
  have "y * 1000 - n = (y - n / 1000) * 1000" by simp
  then have eq: "\<bar>y * 1000 - n\<bar> = \<bar>y - n / 1000\<bar> * 1000"
    by (simp only: abs_mult)
  have "\<bar>y - n / 1000\<bar> * 1000 \<le> n / 1000 / 2 ^ 53 * 1000"
    using y(3) by (rule mult_right_mono) simp
  also have "n / 1000 / 2 ^ 53 * 1000 = n / 2 ^ 53"
    by simp
  finally have d1: "\<bar>y * 1000 - n\<bar> \<le> n / 2 ^ 53"
    unfolding eq .
  have y1: "1 / 2048 \<le> y * 1000"
    using d1 q1 n1 by linarith
  have y2: "y * 1000 \<le> 2 ^ 52"
    using d1 q1 n2 unfolding p51 p52 by linarith
  have y3: "y * 1000 \<le> 2251799813685248"
    using d1 q1 n2 unfolding p51 by linarith
  have q2: "y * 1000 / 2 ^ 53 \<le> 1 / 4"
    using y3 unfolding p53 by linarith
  have lo': "2 powi (- 1022) \<le> y * 1000"
    using min_normal_le y1 by linarith
  obtain w where w: "round_to_double (k < 0) (y * 1000) = Finite (k < 0) w"
    "\<bar>w - y * 1000\<bar> \<le> y * 1000 / 2 ^ 53"
    using round_to_double_normal [OF lo' below_max [OF y2]] by blast
  have close: "\<bar>w - n\<bar> < 1 / 2"
    using w(2) q2 d1 q1 by linarith
  have "times_1000 (divide_1000 (Finite (k < 0) n)) = Finite (k < 0) w"
    by (simp add: times_1000_def divide_1000_def y(1) w(1))
  then show ?thesis
    using Math_round_near [OF k1, of w] close unfolding n_def by simp
qed


lemma times_1000_moderate:
  assumes m0: "0 \<le> m" and m1: "m \<le> 10 ^ 12"
  shows "\<exists>w. times_1000 (Finite s m) = Finite s w \<and> 0 \<le> w
    \<and> \<bar>w - m * 1000\<bar> \<le> m * 1000 / 2 ^ 53 + 2 powi (- 1075)"
proof (cases "m = 0")
  case True
  then show ?thesis
    by (simp add: times_1000_def less_imp_le)
next
  case False
  with m0 have pos: "0 < m * 1000" by simp
  have "m * 1000 \<le> 2 ^ 52" using m1 by simp
  then have small: "m * 1000 < 2 powi 1023" by (rule below_max)
  from round_to_double_err2 [OF pos small, of s] show ?thesis
    by (simp add: times_1000_def)
qed

lemma Math_round_Finite:
  "Math_round (Finite s w) =
    (if \<lfloor>(if s then - w else w) + 1 / 2\<rfloor> = 0 then Finite s 0
     else Finite (\<lfloor>(if s then - w else w) + 1 / 2\<rfloor> < 0)
            (of_int \<bar>\<lfloor>(if s then - w else w) + 1 / 2\<rfloor>\<bar>))"
  by (simp add: Math_round_def Let_def)

lemma floor_half: "\<lfloor>1 / 2 :: rat\<rfloor> = 0"
  by linarith

lemma round3_zero: "round3 (Finite s 0) = Finite s 0"
  by (simp add: round3_def times_1000_def divide_1000_def Math_round_def floor_half)

lemma rounded_product_moderate:
  assumes m0: "0 \<le> m" and m1: "m \<le> 10 ^ 12"
    and w: "times_1000 (Finite s m) = Finite s w" "0 \<le> w"
      "\<bar>w - m * 1000\<bar> \<le> m * 1000 / 2 ^ 53 + 2 powi (- 1075)"
  shows "\<bar>\<lfloor>(if s then - w else w) + 1 / 2\<rfloor>\<bar> \<le> 2 ^ 51 - 1"
proof -
  define k where "k = \<lfloor>(if s then - w else w) + 1 / 2\<rfloor>"
  have p53: "(2::rat) ^ 53 = 9007199254740992" by simp
  have t: "(2::rat) powi (- 1075) \<le> 1 / 4"
    using tiny_le by simp
  have "m * 1000 / 2 ^ 53 \<le> 1 / 4"
    using m1 unfolding p53 by simp
  with w(3) t have wb: "w \<le> m * 1000 + 1 / 2"
    by linarith
  have kb: "of_int k \<le> (if s then - w else w) + 1 / 2"
    "(if s then - w else w) + 1 / 2 < of_int k + 1"
    unfolding k_def by linarith+
  have "(of_int \<bar>k\<bar> :: rat) \<le> w + 1"
  proof (cases s)
    case True
    with kb have "of_int k \<le> - w + 1 / 2" "- w + 1 / 2 < of_int k + 1"
      by simp_all
    then show ?thesis
      using w(2) unfolding of_int_abs by linarith
  next
    case False
    with kb have "of_int k \<le> w + 1 / 2" "w + 1 / 2 < of_int k + 1"
      by simp_all
    then show ?thesis
      using w(2) unfolding of_int_abs by linarith
  qed
  also have "\<dots> \<le> of_int (2 ^ 51 - 1)"
    using wb m1 by simp
  finally have "\<bar>k\<bar> \<le> 2 ^ 51 - 1"
    by (simp only: of_int_le_iff)
  then show ?thesis unfolding k_def .
qed

lemma round3_round3_moderate:
  assumes "c = NaN \<or> (\<exists>s. c = Infinity s) \<or> (\<exists>s m. c = Finite s m \<and> 0 \<le> m \<and> m \<le> 10 ^ 12)"
  shows "round3 (round3 c) = round3 c"
proof -
  consider "c = NaN" | s where "c = Infinity s"
    | s m where "c = Finite s m" "0 \<le> m" "m \<le> 10 ^ 12"
    using assms by blast
  then show ?thesis
  proof cases
    case 1
    then show ?thesis
      by (simp add: round3_def times_1000_def divide_1000_def Math_round_def)
  next
    case 2
    then show ?thesis
      by (simp add: round3_def times_1000_def divide_1000_def Math_round_def)
  next
    case 3
    obtain w where w: "times_1000 (Finite s m) = Finite s w" "0 \<le> w"
      "\<bar>w - m * 1000\<bar> \<le> m * 1000 / 2 ^ 53 + 2 powi (- 1075)"
      using times_1000_moderate [OF 3(2,3)] by blast
    define k where "k = \<lfloor>(if s then - w else w) + 1 / 2\<rfloor>"
    have kb: "\<bar>k\<bar> \<le> 2 ^ 51 - 1"
      unfolding k_def by (rule rounded_product_moderate [OF 3(2,3) w])
    have K: "Math_round (times_1000 c) =
        (if k = 0 then Finite s 0 else Finite (k < 0) (of_int \<bar>k\<bar>))"
      unfolding 3(1) w(1) Math_round_Finite k_def ..
    show ?thesis
    proof (cases "k = 0")
      case True
      with K have "round3 c = Finite s 0"
        by (simp add: round3_def divide_1000_def)
      then show ?thesis by (simp add: round3_zero)
    next
      case False
      with K have r: "round3 c = divide_1000 (Finite (k < 0) (of_int \<bar>k\<bar>))"
        by (simp add: round3_def)
      show ?thesis
        unfolding r unfolding round3_def reround_integer [OF False kb] ..
    qed
  qed
qed


lemma Math_round_away:
  assumes "0 \<le> v \<or> frac v \<noteq> 1 / 2"
  shows "\<lfloor>v + 1 / 2\<rfloor> = round_half_away_from_zero v"
proof (cases "0 \<le> v")
  case True
  then show ?thesis by (simp add: round_half_away_from_zero_def)
next
  case False
  with assms have f: "frac v \<noteq> 1 / 2" by simp
  define m where "m = \<lfloor>v + 1 / 2\<rfloor>"
  have lo: "of_int m \<le> v + 1 / 2" and hi: "v + 1 / 2 < of_int m + 1"
    unfolding m_def by linarith+
  have ne: "of_int m \<noteq> v + 1 / 2"
  proof
    assume eq: "of_int m = v + 1 / 2"
    then have "\<lfloor>v\<rfloor> = m - 1"
      by linarith
    with eq have "frac v = 1 / 2"
      by (simp add: frac_def)
    with f show False by simp
  qed
  have "\<lfloor>- v + 1 / 2\<rfloor> = - m"
  proof (rule floor_unique)
    show "of_int (- m) \<le> - v + 1 / 2" using hi by simp
    show "- v + 1 / 2 < of_int (- m) + 1" using lo ne by simp
  qed
  then have "\<lfloor>v + 1 / 2\<rfloor> = - \<lfloor>- v + 1 / 2\<rfloor>"
    by (simp add: m_def)
  with False show ?thesis by (simp add: round_half_away_from_zero_def)
qed

lemma round3_error_bound:
  assumes m0: "0 \<le> m" and m1: "m \<le> 10 ^ 12"
    and w0: "0 \<le> w"
    and wm: "\<bar>w - m * 1000\<bar> \<le> m * 1000 / 2 ^ 53 + 2 powi (- 1075)"
    and k: "k = \<lfloor>(if s then - w else w) + 1 / 2\<rfloor>"
    and r: "r = round_to_double (if k = 0 then s else k < 0) (of_int \<bar>k\<bar> / 1000)"
    and kb: "\<bar>k\<bar> \<le> 2 ^ 51 - 1"
  shows "\<bar>value_of r - (if s then - m else m)\<bar> \<le> 1 / 2000 + (m + 1 / 1000) / 2 ^ 52"
proof -
  define t :: rat where "t = 2 powi (- 1075)"
  have t0: "0 < t" unfolding t_def by simp
  have t1: "t \<le> 1 / 18446744073709551616"
    using tiny_le unfolding t_def by simp
  have wm': "\<bar>w - m * 1000\<bar> \<le> m * 1000 / 9007199254740992 + t"
    using wm unfolding t_def by simp
  have m1': "m \<le> 1000000000000" using m1 by simp
  define kk :: rat where "kk = of_int k"
  have kf: "kk \<le> (if s then - w else w) + 1 / 2" "(if s then - w else w) + 1 / 2 < kk + 1"
    unfolding kk_def k by linarith+
  show ?thesis
  proof (cases "k = 0")
    case True
    then have "value_of r = 0"
      unfolding r by (simp add: value_of_def)
    moreover have wh: "w \<le> 1 / 2"
      using kf True unfolding kk_def by (cases s) simp_all
    moreover have "m \<le> 1 / 2000 + (m + 1 / 1000) / 4503599627370496"
      using wh wm' [unfolded abs_le_iff] t1 m0 by (simp add: field_simps)
    ultimately show ?thesis
      using m0 by (cases s) simp_all
  next
    case False
    then have "1 \<le> \<bar>k\<bar>" by linarith
    then have "(of_int 1 :: rat) \<le> of_int \<bar>k\<bar>"
      by (simp only: of_int_le_iff)
    then have n1: "(1::rat) \<le> of_int \<bar>k\<bar>" by simp
    have "(of_int \<bar>k\<bar> :: rat) \<le> of_int (2 ^ 51 - 1)"
      using kb by (simp only: of_int_le_iff)
    then have n2: "(of_int \<bar>k\<bar> :: rat) \<le> 2 ^ 51 - 1" by simp
    have lo: "2 powi (- 1022) \<le> (of_int \<bar>k\<bar> :: rat) / 1000"
      using min_normal_le n1 by linarith
    have hi: "(of_int \<bar>k\<bar> :: rat) / 1000 < 2 powi 1023"
      using n2 by (intro below_max) simp
    obtain y where y: "round_to_double (k < 0) (of_int \<bar>k\<bar> / 1000) = Finite (k < 0) y"
      "0 \<le> y" "\<bar>y - of_int \<bar>k\<bar> / 1000\<bar> \<le> of_int \<bar>k\<bar> / 1000 / 2 ^ 53"
      using round_to_double_normal [OF lo hi] by blast
    have ry: "r = Finite (k < 0) y"
      unfolding r using False y(1) by simp
    have sk: "(k < 0) = s"
    proof (cases s)
      case True
      with kf w0 have "kk < of_int 1" by simp
      then have "k < 1" unfolding kk_def by (simp only: of_int_less_iff)
      with False True show ?thesis by simp
    next
      case F: False
      with kf w0 have "of_int (- 1) < kk" by simp
      then have "- 1 < k" unfolding kk_def by (simp only: of_int_less_iff)
      with F show ?thesis by simp
    qed
    have ak: "(of_int \<bar>k\<bar> :: rat) = (if s then - kk else kk)"
      using sk unfolding kk_def by (cases s) simp_all
    define n :: rat where "n = of_int \<bar>k\<bar>"
    have n0: "0 \<le> n" unfolding n_def by simp
    have nw: "\<bar>n - w\<bar> \<le> 1 / 2"
    proof (cases s)
      case True
      with kf have "kk \<le> - w + 1 / 2" "- w + 1 / 2 < kk + 1" by simp_all
      then have "\<bar>- kk - w\<bar> \<le> 1 / 2" by linarith
      with True show ?thesis unfolding n_def ak by simp
    next
      case F: False
      with kf have "kk \<le> w + 1 / 2" "w + 1 / 2 < kk + 1" by simp_all
      then have "\<bar>kk - w\<bar> \<le> 1 / 2" by linarith
      with F show ?thesis unfolding n_def ak by simp
    qed
    have yn: "\<bar>y - n / 1000\<bar> \<le> n / 9007199254740992000"
      using y(3) unfolding n_def by simp
    have "\<bar>y - m\<bar> \<le> 1 / 2000 + (m + 1 / 1000) / 4503599627370496"
      unfolding abs_le_iff
      using yn [unfolded abs_le_iff] nw [unfolded abs_le_iff] wm' [unfolded abs_le_iff]
        t1 t0 m0 m1' w0 n0
      by (simp add: field_simps)
    moreover have v: "value_of r - (if s then - m else m) = (if s then - (y - m) else y - m)"
      unfolding ry sk by (simp add: value_of_def)
    ultimately show ?thesis
      unfolding v by (cases s) simp_all
  qed
qed

lemma round3_characterised:
  assumes m0: "0 \<le> m" and m1: "m \<le> 10 ^ 12"
  shows "\<exists>w k. times_1000 (Finite s m) = Finite s w
     \<and> \<bar>w - m * 1000\<bar> \<le> m * 1000 / 2 ^ 53 + 2 powi (- 1075)
     \<and> (if s then - w else w) - 1 / 2 < of_int k
     \<and> of_int k \<le> (if s then - w else w) + 1 / 2
     \<and> round3 (Finite s m) = round_to_double (if k = 0 then s else k < 0) (of_int \<bar>k\<bar> / 1000)
     \<and> (0 \<le> (if s then - w else w) \<or> frac (if s then - w else w) \<noteq> 1 / 2
          \<longrightarrow> k = round_half_away_from_zero (if s then - w else w))
     \<and> \<bar>value_of (round3 (Finite s m)) - value_of (Finite s m)\<bar>
          \<le> 1 / 2000 + (m + 1 / 1000) / 2 ^ 52"
proof -
  obtain w where w: "times_1000 (Finite s m) = Finite s w" "0 \<le> w"
    "\<bar>w - m * 1000\<bar> \<le> m * 1000 / 2 ^ 53 + 2 powi (- 1075)"
    using times_1000_moderate [OF m0 m1] by blast
  define k where "k = \<lfloor>(if s then - w else w) + 1 / 2\<rfloor>"
  have kb: "\<bar>k\<bar> \<le> 2 ^ 51 - 1"
    unfolding k_def by (rule rounded_product_moderate [OF m0 m1 w])
  have k1: "(if s then - w else w) - 1 / 2 < of_int k"
    and k2: "of_int k \<le> (if s then - w else w) + 1 / 2"
    unfolding k_def by linarith+
  have r: "round3 (Finite s m) = round_to_double (if k = 0 then s else k < 0) (of_int \<bar>k\<bar> / 1000)"
    unfolding round3_def w(1) Math_round_Finite k_def [symmetric]
    by (simp add: divide_1000_def)
  have a: "0 \<le> (if s then - w else w) \<or> frac (if s then - w else w) \<noteq> 1 / 2
          \<longrightarrow> k = round_half_away_from_zero (if s then - w else w)"
    unfolding k_def using Math_round_away by blast
  have e: "\<bar>value_of (round3 (Finite s m)) - value_of (Finite s m)\<bar>
          \<le> 1 / 2000 + (m + 1 / 1000) / 2 ^ 52"
    using round3_error_bound [OF m0 m1 w(2) w(3) k_def r kb] by (simp add: value_of_def)
  show ?thesis
    using w(1) w(3) k1 k2 r a e by blast
qed


section \<open>Where stored coordinates come from\<close>

lemma extractHands_coords:
  assumes "extractHands labels idx hs (l, r) = Inr (l', r')"
    and "t \<in> set (field_coords l') \<union> set (field_coords r')"
  shows "t \<in> set (field_coords l) \<union> set (field_coords r)
    \<or> (\<exists>lm \<in> set (concat hs). t = roundLandmark lm)"
  using assms
proof (induction hs arbitrary: idx l r)
  case Nil
  then show ?case by simp
next
  case (Cons landmarks rest)
  from Cons.prems(1) have idx: "idx < length labels"
    by (simp split: if_splits)
  show ?case
  proof (cases "labels ! idx = ''Left''")
    case True
    with Cons.prems(1) idx
    have "extractHands labels (Suc idx) rest (Some (map roundLandmark landmarks), r) = Inr (l', r')"
      by (simp add: Let_def)
    from Cons.IH [OF this Cons.prems(2)] show ?thesis
      by (auto simp add: field_coords_def)
  next
    case False
    with Cons.prems(1) idx
    have "extractHands labels (Suc idx) rest (l, Some (map roundLandmark landmarks)) = Inr (l', r')"
      by (simp add: Let_def)
    from Cons.IH [OF this Cons.prems(2)] show ?thesis
      by (auto simp add: field_coords_def)
  qed
qed

lemma extractFace_coords:
  assumes "extractFace faceLandmarks = Inr cs" and "t \<in> set cs"
  shows "\<exists>lm \<in> set faceLandmarks. t = roundLandmark lm"
proof -
  from assms(1) have ok: "list_all (\<lambda>idx. idx < length faceLandmarks) keyIndices"
    and cs: "cs = map (\<lambda>idx. roundLandmark (faceLandmarks ! idx)) keyIndices"
    by (auto simp add: extractFace_def split: if_splits)
  from assms(2) cs obtain idx where "idx \<in> set keyIndices" "t = roundLandmark (faceLandmarks ! idx)"
    by auto
  moreover from this ok have "idx < length faceLandmarks"
    by (simp add: list_all_iff)
  ultimately show ?thesis
    using nth_mem by blast
qed

lemma compose_coords:
  assumes c: "composeSkeletalData now det = Inr rec" and t: "t \<in> set (stored_coords rec)"
  shows "\<exists>lm \<in> set (detected_landmarks det). t = roundLandmark lm"
proof -
  define hands where "hands = (case currentHandsData det of None \<Rightarrow> Inr (None, None)
       | Some h \<Rightarrow> (case multiHandLandmarks h of None \<Rightarrow> Inr (None, None)
                   | Some hs \<Rightarrow> extractHands (multiHandedness h) 0 hs (None, None)))"
  define face where "face = (case currentFaceData det of None \<Rightarrow> Inr None
       | Some f \<Rightarrow> (case multiFaceLandmarks f of None \<Rightarrow> Inr None
                   | Some [] \<Rightarrow> Inr None
                   | Some (faceLandmarks # _) \<Rightarrow>
                       (case extractFace faceLandmarks of Inl e \<Rightarrow> Inl e
                        | Inr fl \<Rightarrow> Inr (Some fl))))"
  define pose where "pose = (case currentPoseData det of None \<Rightarrow> None
       | Some p \<Rightarrow> (case poseLandmarks p of None \<Rightarrow> None
                   | Some lms \<Rightarrow> Some (map roundLandmark lms)))"
  from c have fields: "hands = Inr (left_hand rec, right_hand rec)"
    "face = Inr (face_landmarks rec)" "pose_landmarks rec = pose"
    unfolding composeSkeletalData_def Let_def hands_def [symmetric] face_def [symmetric]
      pose_def [symmetric]
    by (auto split: sum.splits prod.splits)
  from t consider "t \<in> set (field_coords (pose_landmarks rec))"
    | "t \<in> set (field_coords (left_hand rec)) \<union> set (field_coords (right_hand rec))"
    | "t \<in> set (field_coords (face_landmarks rec))"
    by (auto simp add: stored_coords_def)
  then show ?thesis
  proof cases
    case 1
    then show ?thesis
      unfolding fields(3) pose_def detected_landmarks_def
      by (auto simp add: field_coords_def split: option.splits)
  next
    case 2
    from fields(1) consider
      (found) h hs where "currentHandsData det = Some h" "multiHandLandmarks h = Some hs"
        "extractHands (multiHandedness h) 0 hs (None, None)
          = Inr (left_hand rec, right_hand rec)"
      | (none) "left_hand rec = None" "right_hand rec = None"
      unfolding hands_def by (auto split: option.splits)
    then show ?thesis
    proof cases
      case found
      from extractHands_coords [OF found(3) 2]
      have "\<exists>lm \<in> set (concat hs). t = roundLandmark lm"
        by (simp add: field_coords_def)
      then show ?thesis
        unfolding detected_landmarks_def by (auto simp add: found(1,2))
    next
      case none
      with 2 show ?thesis by (simp add: field_coords_def)
    qed
  next
    case 3
    then obtain cs where cs: "face_landmarks rec = Some cs" "t \<in> set cs"
      by (cases "face_landmarks rec") (simp_all add: field_coords_def)
    from fields(2) cs(1) obtain f fl rest where f: "currentFaceData det = Some f"
      "multiFaceLandmarks f = Some (fl # rest)" "extractFace fl = Inr cs"
      unfolding face_def by (auto split: option.splits list.splits sum.splits)
    from extractFace_coords [OF f(3) cs(2)] show ?thesis
      unfolding detected_landmarks_def by (auto simp add: f(1,2))
  qed
qed

section \<open>Coordinate rounding\<close>

text \<open>
  C9, as stated, fails: \<open>4426392910172.446\<close> is stored as the binary64 value nearest
  to \<open>4426392910172.447\<close>, and rounding that stored value again gives the one nearest
  to \<open>4426392910172.448\<close>: an already rounded coordinate is changed.
\<close>

theorem reround_moves_counterexample:
  "round_to_double False (4426392910172446 / 1000) = double_4426392910172_446
   \<and> round3 double_4426392910172_446 = round_to_double False (4426392910172447 / 1000)
   \<and> round3 (round3 double_4426392910172_446)
       = round_to_double False (4426392910172448 / 1000)
   \<and> round3 (round3 double_4426392910172_446) \<noteq> round3 double_4426392910172_446"
  by code_simp

text \<open>
  C9, amended. Coordinate rounding is idempotent on every coordinate of moderate size
  (NaN, an infinity, or a finite value of magnitude at most \<open>10 ^ 12\<close>): applying the
  rounding to the rounded value returns it unchanged, and so does rounding a landmark
  whose three coordinates are rounded coordinates of moderate size.
\<close>

theorem round3_idempotent:
  assumes "moderate a" and "moderate b" and "moderate d"
  shows "round3 (round3 a) = round3 a
   \<and> roundLandmark (Landmark (round3 a) (round3 b) (round3 d)) = (round3 a, round3 b, round3 d)"
proof -
  have "round3 (round3 c) = round3 c" if "moderate c" for c
    using that by (intro round3_round3_moderate) (cases c; simp add: moderate_def)
  with assms show ?thesis
    by (simp add: roundLandmark_def)
qed

theorem round3_idempotent_witness:
  "moderate double_0_4995 \<and> moderate (Finite True (1 / 16)) \<and> moderate (Finite True 0)
   \<and> round3 double_0_4995 = Finite False (1 / 2)
   \<and> round3 (round3 double_0_4995) = round3 double_0_4995
   \<and> roundLandmark (Landmark (round3 double_0_4995) (round3 (Finite True (1 / 16)))
        (round3 (Finite True 0)))
      = (round3 double_0_4995, round3 (Finite True (1 / 16)), round3 (Finite True 0))"
proof -
  have m: "moderate double_0_4995" "moderate (Finite True (1 / 16))" "moderate (Finite True 0)"
    by (simp_all add: moderate_def double_0_4995_def)
  have v: "round3 double_0_4995 = Finite False (1 / 2)"
    by code_simp
  show ?thesis
    using round3_idempotent [OF m] m v by simp
qed

text \<open>
  C8, as stated, fails. The coordinate \<open>- 0.0625\<close> is a tie in the third decimal
  place (it and its product \<open>- 62.5\<close> are binary fractions): the record stores the
  binary64 value nearest to \<open>- 0.062\<close>, toward zero, where half away from zero gives
  \<open>- 0.063\<close>. And the binary64 value nearest to \<open>0.4995\<close> lies below \<open>0.4995\<close>,
  so half away from zero gives \<open>0.499\<close>, but its product with 1000 rounds to
  \<open>499.5\<close> and the record stores \<open>0.5\<close>.
\<close>

theorem round3_not_half_away_counterexample:
  "composeSkeletalData 7 (observe (pose_at 7) started_detector) = Inr pose_record
   \<and> pose_landmarks pose_record
       = Some [(Finite False (1 / 2), Finite False (1 / 4), round_to_double True (62 / 1000))]
   \<and> spec_round3 (Finite True (1 / 16)) = round_to_double True (63 / 1000)
   \<and> round3 (Finite True (1 / 16)) \<noteq> spec_round3 (Finite True (1 / 16))
   \<and> value_of (spec_round3 (Finite True (1 / 16))) < value_of (round3 (Finite True (1 / 16)))
   \<and> round3 double_0_4995 = Finite False (1 / 2)
   \<and> spec_round3 double_0_4995 = round_to_double False (499 / 1000)
   \<and> round3 double_0_4995 \<noteq> spec_round3 double_0_4995"
  by code_simp

text \<open>
  C8, amended. Every coordinate triple stored in a FrameRecord is
  \<^verbatim>\<open>Math.round(c * 1000) / 1000\<close> of the three coordinates of a detected landmark,
  evaluated in binary64 arithmetic. For a finite coordinate \<open>c\<close> of magnitude at most
  \<open>10 ^ 12\<close>: the product \<open>c * 1000\<close> is computed with a relative error of at most
  \<open>2 ^ - 53\<close> (plus \<open>2 ^ - 1075\<close>); \<open>k\<close> is the integer nearest to that product,
  a tie going toward positive infinity; the stored value is the binary64 value nearest to
  \<open>k / 1000\<close>, with the sign of the coordinate when \<open>k\<close> is zero; \<open>k\<close> is the
  half-away-from-zero rounding of the product whenever the product is not negative or
  not a tie; and the stored value differs from \<open>c\<close> by at most
  \<open>0.0005 + (\<bar>c\<bar> + 0.001) / 2 ^ 52\<close>. NaN and the infinities are stored as they are.
\<close>

theorem stored_coordinates_rounded:
  assumes "composeSkeletalData now det = Inr rec" and "t \<in> set (stored_coords rec)"
  shows "(\<exists>lm \<in> set (detected_landmarks det).
            t = (round3 (lm_x lm), round3 (lm_y lm), round3 (lm_z lm)))
   \<and> (0 \<le> m \<and> m \<le> 10 ^ 12 \<longrightarrow>
        (\<exists>w k. times_1000 (Finite s m) = Finite s w
           \<and> \<bar>w - m * 1000\<bar> \<le> m * 1000 / 2 ^ 53 + 2 powi (- 1075)
           \<and> (if s then - w else w) - 1 / 2 < of_int k
           \<and> of_int k \<le> (if s then - w else w) + 1 / 2
           \<and> round3 (Finite s m)
               = round_to_double (if k = 0 then s else k < 0) (of_int \<bar>k\<bar> / 1000)
           \<and> (0 \<le> (if s then - w else w) \<or> frac (if s then - w else w) \<noteq> 1 / 2
                \<longrightarrow> k = round_half_away_from_zero (if s then - w else w))
           \<and> \<bar>value_of (round3 (Finite s m)) - value_of (Finite s m)\<bar>
                \<le> 1 / 2000 + (m + 1 / 1000) / 2 ^ 52))
   \<and> round3 NaN = NaN \<and> round3 (Infinity s) = Infinity s"
proof (intro conjI impI)
  show "\<exists>lm \<in> set (detected_landmarks det).
            t = (round3 (lm_x lm), round3 (lm_y lm), round3 (lm_z lm))"
    using compose_coords [OF assms] by (simp add: roundLandmark_def)
  show "round3 NaN = NaN" and "round3 (Infinity s) = Infinity s"
    by (simp_all add: round3_def times_1000_def Math_round_def divide_1000_def)
next
  assume "0 \<le> m \<and> m \<le> 10 ^ 12"
  then have "0 \<le> m" "m \<le> 10 ^ 12" by simp_all
  then show "\<exists>w k. times_1000 (Finite s m) = Finite s w
           \<and> \<bar>w - m * 1000\<bar> \<le> m * 1000 / 2 ^ 53 + 2 powi (- 1075)
           \<and> (if s then - w else w) - 1 / 2 < of_int k
           \<and> of_int k \<le> (if s then - w else w) + 1 / 2
           \<and> round3 (Finite s m)
               = round_to_double (if k = 0 then s else k < 0) (of_int \<bar>k\<bar> / 1000)
           \<and> (0 \<le> (if s then - w else w) \<or> frac (if s then - w else w) \<noteq> 1 / 2
                \<longrightarrow> k = round_half_away_from_zero (if s then - w else w))
           \<and> \<bar>value_of (round3 (Finite s m)) - value_of (Finite s m)\<bar>
                \<le> 1 / 2000 + (m + 1 / 1000) / 2 ^ 52"
    by (rule round3_characterised)
qed

theorem stored_coordinates_rounded_witness:
  "composeSkeletalData 7 (observe (pose_at 7) started_detector) = Inr pose_record
   \<and> (round3 (Finite False (1 / 2)), round3 (Finite False (1 / 4)), round3 (Finite True (1 / 16)))
        \<in> set (stored_coords pose_record)
   \<and> (\<exists>lm \<in> set (detected_landmarks (observe (pose_at 7) started_detector)).
         (round3 (Finite False (1 / 2)), round3 (Finite False (1 / 4)),
          round3 (Finite True (1 / 16)))
           = (round3 (lm_x lm), round3 (lm_y lm), round3 (lm_z lm)))
   \<and> 0 \<le> (1 / 16 :: rat) \<and> (1 / 16 :: rat) \<le> 10 ^ 12
   \<and> \<bar>value_of (round3 (Finite True (1 / 16))) - value_of (Finite True (1 / 16))\<bar>
        \<le> 1 / 2000 + (1 / 16 + 1 / 1000) / 2 ^ 52
   \<and> round3 (Finite True (1 / 16)) = round_to_double True (62 / 1000)"
proof -
  have c: "composeSkeletalData 7 (observe (pose_at 7) started_detector) = Inr pose_record"
    by code_simp
  have t: "(round3 (Finite False (1 / 2)), round3 (Finite False (1 / 4)),
      round3 (Finite True (1 / 16))) \<in> set (stored_coords pose_record)"
    by (simp add: stored_coords_def field_coords_def pose_record_def)
  have m: "0 \<le> (1 / 16 :: rat) \<and> (1 / 16 :: rat) \<le> 10 ^ 12"
    by simp
  have v: "round3 (Finite True (1 / 16)) = round_to_double True (62 / 1000)"
    by code_simp
  from stored_coordinates_rounded [OF c t, of "1 / 16" True] m
  have "(\<exists>lm \<in> set (detected_landmarks (observe (pose_at 7) started_detector)).
         (round3 (Finite False (1 / 2)), round3 (Finite False (1 / 4)),
          round3 (Finite True (1 / 16)))
           = (round3 (lm_x lm), round3 (lm_y lm), round3 (lm_z lm)))"
    and "\<bar>value_of (round3 (Finite True (1 / 16))) - value_of (Finite True (1 / 16))\<bar>
        \<le> 1 / 2000 + (1 / 16 + 1 / 1000) / 2 ^ 52"
    by blast+
  with c t m v show ?thesis by blast
qed


section \<open>The batch accumulator\<close>

lemma compose_frameBuffer:
  assumes "currentPoseData d1 = currentPoseData d2"
    and "currentHandsData d1 = currentHandsData d2"
    and "currentFaceData d1 = currentFaceData d2"
  shows "composeSkeletalData n d1 =
    map_sum id (\<lambda>r. r\<lparr>frame_id := length (frameBuffer d1)\<rparr>) (composeSkeletalData n d2)"
  using assms unfolding composeSkeletalData_def
  by (simp add: Let_def split: sum.splits option.splits prod.splits list.splits)

lemma observe_fields [simp]:
  "frameBuffer (observe ob det) = frameBuffer det"
  "onFrameCallback (observe ob det) = onFrameCallback det"
  "isInitialized (observe ob det) = isInitialized det"
  "currentPoseData (observe ob det) = fst (snd ob)"
  "currentHandsData (observe ob det) = fst (snd (snd ob))"
  "currentFaceData (observe ob det) = snd (snd (snd ob))"
  by (simp_all add: observe_def split: prod.splits)

lemma compose_observe:
  "composeSkeletalData n (observe ob det) =
    map_sum id (\<lambda>r. r\<lparr>frame_id := length (frameBuffer det)\<rparr>)
      (composeSkeletalData n (observe ob new_PoseDetector))"
  using compose_frameBuffer [of "observe ob det" "observe ob new_PoseDetector" n]
  by simp

lemma arrivals_Cons:
  "arrivals (ob # obs) =
    (case composeSkeletalData (fst ob) (observe ob new_PoseDetector) of
       Inl e \<Rightarrow> [] | Inr rec \<Rightarrow> [payload rec]) @ arrivals obs"
  by (simp add: arrivals_def)

lemma payload_frame_id [simp]: "payload (r\<lparr>frame_id := k\<rparr>) = payload r"
  by (simp add: payload_def)

lemma pushFrame_inv:
  assumes inv: "buffer_inv (FRAME_BATCH_SIZE cfg) det"
    and fid: "frame_id r = length (frameBuffer det)"
    and push: "pushFrame cfg det r = (det', out)"
  shows "buffer_inv (FRAME_BATCH_SIZE cfg) det'"
    and "case out of None \<Rightarrow> frameBuffer det' = frameBuffer det @ [r]
         | Some b \<Rightarrow> b = frameBuffer det @ [r] \<and> frameBuffer det' = []
             \<and> length b = FRAME_BATCH_SIZE cfg
             \<and> map frame_id b = [0..<FRAME_BATCH_SIZE cfg]"
proof -
  let ?n = "length (frameBuffer det)"
  have up: "FRAME_BATCH_SIZE cfg \<le> Suc ?n \<Longrightarrow> [0..<FRAME_BATCH_SIZE cfg] = [0..<?n] @ [?n]"
    using inv unfolding buffer_inv_def
    by (metis Suc_leI le_antisym upt_Suc_append zero_le)
  show "buffer_inv (FRAME_BATCH_SIZE cfg) det'"
    using assms unfolding buffer_inv_def pushFrame_def
    by (auto simp add: Let_def split: if_splits)
  show "case out of None \<Rightarrow> frameBuffer det' = frameBuffer det @ [r]
         | Some b \<Rightarrow> b = frameBuffer det @ [r] \<and> frameBuffer det' = []
             \<and> length b = FRAME_BATCH_SIZE cfg
             \<and> map frame_id b = [0..<FRAME_BATCH_SIZE cfg]"
    using assms up unfolding buffer_inv_def pushFrame_def
    by (auto simp add: Let_def split: if_splits)
qed

lemma extractAll_inv:
  assumes "buffer_inv (FRAME_BATCH_SIZE cfg) det"
    and "extractAll cfg det obs = (det', bs)"
  shows "buffer_inv (FRAME_BATCH_SIZE cfg) det'
    \<and> (\<forall>b \<in> set bs. length b = FRAME_BATCH_SIZE cfg \<and> map frame_id b = [0..<FRAME_BATCH_SIZE cfg])
    \<and> map payload (concat bs @ frameBuffer det') = map payload (frameBuffer det) @ arrivals obs"
  using assms
proof (induction obs arbitrary: det det' bs)
  case Nil
  then show ?case by (simp add: arrivals_def)
next
  case (Cons ob obs)
  let ?d0 = "observe ob det"
  have inv0: "buffer_inv (FRAME_BATCH_SIZE cfg) ?d0"
    using Cons.prems(1) by (simp add: buffer_inv_def)
  show ?case
  proof (cases "composeSkeletalData (fst ob) (observe ob new_PoseDetector)")
    case (Inl e)
    then have c: "composeSkeletalData (fst ob) ?d0 = Inl e"
      using compose_observe [of "fst ob" ob det] by simp
    have eq: "extractAll cfg det (ob # obs) = extractAll cfg ?d0 obs"
      by (simp only: extractAll.simps extractSkeletalData_def c sum.case)
    have "extractAll cfg ?d0 obs = (det', bs)"
      using Cons.prems(2) unfolding eq .
    from Cons.IH [OF inv0 this] Inl show ?thesis
      by (simp add: arrivals_Cons)
  next
    case (Inr r0)
    define r where "r = r0\<lparr>frame_id := length (frameBuffer det)\<rparr>"
    have c: "composeSkeletalData (fst ob) ?d0 = Inr r"
      using Inr compose_observe [of "fst ob" ob det] by (simp add: r_def)
    obtain d1 out where push: "pushFrame cfg ?d0 r = (d1, out)"
      by (cases "pushFrame cfg ?d0 r")
    obtain d2 bs2 where rest: "extractAll cfg d1 obs = (d2, bs2)"
      by (cases "extractAll cfg d1 obs")
    have eq: "extractAll cfg det (ob # obs) = (d2, (case out of None \<Rightarrow> [] | Some b \<Rightarrow> [b]) @ bs2)"
      by (simp only: extractAll.simps extractSkeletalData_def c push rest sum.case prod.case)
    have "(det', bs) = (d2, (case out of None \<Rightarrow> [] | Some b \<Rightarrow> [b]) @ bs2)"
      using Cons.prems(2) unfolding eq by (rule sym)
    then have res: "det' = d2" "bs = (case out of None \<Rightarrow> [] | Some b \<Rightarrow> [b]) @ bs2"
      by simp_all
    have fid: "frame_id r = length (frameBuffer ?d0)"
      by (simp add: r_def)
    note p = pushFrame_inv [OF inv0 fid push]
    note ih = Cons.IH [OF p(1) rest]
    have pr: "payload r = payload r0" by (simp add: r_def)
    show ?thesis
    proof (cases out)
      case None
      with p(2) have "frameBuffer d1 = frameBuffer det @ [r]" by simp
      with ih res None Inr pr show ?thesis
        by (simp add: arrivals_Cons)
    next
      case (Some b)
      with p(2) have "b = frameBuffer det @ [r]" "frameBuffer d1 = []"
        "length b = FRAME_BATCH_SIZE cfg" "map frame_id b = [0..<FRAME_BATCH_SIZE cfg]"
        by auto
      with ih res Some Inr pr show ?thesis
        by (simp add: arrivals_Cons)
    qed
  qed
qed

lemma length_concat_uniform:
  "\<forall>b \<in> set bs. length b = B \<Longrightarrow> length (concat bs) = length bs * B"
  by (induction bs) simp_all

text \<open>
  C1. From an empty buffer, with a callback registered and a batch size \<open>B > 0\<close>,
  a run that pushes \<open>N\<close> records hands exactly \<open>N div B\<close> batches to the
  callback; each holds exactly \<open>B\<close> records whose \<open>frame_id\<close>s are
  \<open>0, 1, ..., B - 1\<close> in this order; the batches, one after the other, are the first
  \<open>(N div B) * B\<close> records in arrival order, and the records after those are what
  the buffer still holds.
\<close>

theorem extractAll_full_batches:
  assumes B: "0 < FRAME_BATCH_SIZE cfg"
    and empty: "frameBuffer det = []"
    and cb: "onFrameCallback det"
  shows "length (snd (extractAll cfg det obs)) = length (arrivals obs) div FRAME_BATCH_SIZE cfg
    \<and> (\<forall>b \<in> set (snd (extractAll cfg det obs)).
          length b = FRAME_BATCH_SIZE cfg \<and> map frame_id b = [0..<FRAME_BATCH_SIZE cfg])
    \<and> map payload (concat (snd (extractAll cfg det obs)))
        = take (length (arrivals obs) div FRAME_BATCH_SIZE cfg * FRAME_BATCH_SIZE cfg) (arrivals obs)
    \<and> map payload (frameBuffer (fst (extractAll cfg det obs)))
        = drop (length (arrivals obs) div FRAME_BATCH_SIZE cfg * FRAME_BATCH_SIZE cfg) (arrivals obs)"
proof -
  let ?B = "FRAME_BATCH_SIZE cfg"
  obtain det' bs where run: "extractAll cfg det obs = (det', bs)"
    by (cases "extractAll cfg det obs")
  have inv: "buffer_inv ?B det"
    using B empty cb by (simp add: buffer_inv_def)
  from extractAll_inv [OF inv run]
  have inv': "buffer_inv ?B det'"
    and full: "\<forall>b \<in> set bs. length b = ?B \<and> map frame_id b = [0..<?B]"
    and order: "map payload (concat bs @ frameBuffer det') = arrivals obs"
    by (simp_all add: empty)
  have len: "length (concat bs) = length bs * ?B"
    using full by (simp add: length_concat_uniform)
  have small: "length (frameBuffer det') < ?B"
    using inv' by (simp add: buffer_inv_def)
  have total: "length (arrivals obs) = length bs * ?B + length (frameBuffer det')"
    using arg_cong [OF order, of length] len by simp
  have count: "length (arrivals obs) div ?B = length bs"
    using total small by simp
  have tk: "take (length bs * ?B) (arrivals obs) = map payload (concat bs)"
    using order len by (metis append_eq_conv_conj length_map map_append)
  have dr: "drop (length bs * ?B) (arrivals obs) = map payload (frameBuffer det')"
    using order len by (metis append_eq_conv_conj length_map map_append)
  show ?thesis
    using run full count tk dr by simp
qed

theorem extractAll_full_batches_witness:
  "0 < FRAME_BATCH_SIZE config2 \<and> frameBuffer started_detector = []
   \<and> onFrameCallback started_detector
   \<and> length (arrivals (map pose_at [1, 2, 3, 4, 5])) = 5
   \<and> length (snd (extractAll config2 started_detector (map pose_at [1, 2, 3, 4, 5]))) = 2
   \<and> map (map frame_id) (snd (extractAll config2 started_detector (map pose_at [1, 2, 3, 4, 5])))
       = [[0, 1], [0, 1]]
   \<and> map timestamp (concat (snd (extractAll config2 started_detector (map pose_at [1, 2, 3, 4, 5]))))
       = [1, 2, 3, 4]"
proof -
  have h1: "0 < FRAME_BATCH_SIZE config2"
    by (simp add: config2_def)
  have h2: "frameBuffer started_detector = []"
    by (simp add: started_detector_def initialize_def new_PoseDetector_def)
  have h3: "onFrameCallback started_detector"
    by (simp add: started_detector_def)
  have n: "length (arrivals (map pose_at [1, 2, 3, 4, 5])) = 5"
    by (simp add: arrivals_def pose_at_def observe_def composeSkeletalData_def
        new_PoseDetector_def pose_only_def)
  note t = extractAll_full_batches [OF h1 h2 h3, of "map pose_at [1, 2, 3, 4, 5]"]
  have len: "length (snd (extractAll config2 started_detector (map pose_at [1, 2, 3, 4, 5]))) = 2"
    using t n by (simp add: config2_def)
  have rest:
    "map (map frame_id) (snd (extractAll config2 started_detector (map pose_at [1, 2, 3, 4, 5])))
       = [[0, 1], [0, 1]]
     \<and> map timestamp (concat (snd (extractAll config2 started_detector (map pose_at [1, 2, 3, 4, 5]))))
       = [1, 2, 3, 4]"
    by (simp add: extractSkeletalData_def composeSkeletalData_def pushFrame_def observe_def
        pose_at_def pose_only_def config2_def started_detector_def initialize_def
        new_PoseDetector_def)
  show ?thesis
    using h1 h2 h3 n len rest by simp
qed

section \<open>Determinism of extraction\<close>

text \<open>
  C5, as stated, fails: two consecutive extractions of the same detection results, even
  at the same clock reading, give two different records, numbered 0 and 1.
\<close>

theorem records_differ_counterexample:
  "length (frameBuffer (fst (extractAll CONFIG started_detector [pose_at 7, pose_at 7]))) = 2
   \<and> distinct (frameBuffer (fst (extractAll CONFIG started_detector [pose_at 7, pose_at 7])))
   \<and> map frame_id (frameBuffer (fst (extractAll CONFIG started_detector [pose_at 7, pose_at 7])))
       = [0, 1]"
  by code_simp

lemma compose_stamp:
  "composeSkeletalData n d = Inr r \<Longrightarrow> timestamp r = n \<and> frame_id r = length (frameBuffer d)"
  unfolding composeSkeletalData_def
  by (auto simp add: Let_def split: sum.splits option.splits prod.splits list.splits)

text \<open>
  C5, amended. Two extractions on identical detection inputs (the same current pose,
  hands and face data) both throw or both compose a record, and the two records have
  identical pose, hand and face landmark fields, whatever the clock readings and the
  buffers are; the two records are identical as a whole if and only if the clock reading
  and the buffer length at the two calls are the same too.
\<close>

theorem landmark_fields_deterministic:
  assumes "currentPoseData d1 = currentPoseData d2"
    and "currentHandsData d1 = currentHandsData d2"
    and "currentFaceData d1 = currentFaceData d2"
  shows "map_sum id landmark_fields (composeSkeletalData n1 d1)
      = map_sum id landmark_fields (composeSkeletalData n2 d2)
    \<and> (composeSkeletalData n1 d1 = Inr r1 \<and> composeSkeletalData n2 d2 = Inr r2
        \<longrightarrow> (r1 = r2 \<longleftrightarrow> n1 = n2 \<and> length (frameBuffer d1) = length (frameBuffer d2)))"
proof (intro conjI impI)
  show "map_sum id landmark_fields (composeSkeletalData n1 d1)
      = map_sum id landmark_fields (composeSkeletalData n2 d2)"
    using assms unfolding composeSkeletalData_def landmark_fields_def
    by (simp add: Let_def split: sum.splits option.splits prod.splits list.splits)
next
  assume c: "composeSkeletalData n1 d1 = Inr r1 \<and> composeSkeletalData n2 d2 = Inr r2"
  have same: "composeSkeletalData n1 d1 = composeSkeletalData n2 d2"
    if "n1 = n2" "length (frameBuffer d1) = length (frameBuffer d2)"
    using assms that unfolding composeSkeletalData_def
    by (simp add: Let_def split: sum.splits option.splits prod.splits list.splits)
  show "r1 = r2 \<longleftrightarrow> n1 = n2 \<and> length (frameBuffer d1) = length (frameBuffer d2)"
  proof
    assume "r1 = r2"
    with c compose_stamp [of n1 d1 r1] compose_stamp [of n2 d2 r2]
    show "n1 = n2 \<and> length (frameBuffer d1) = length (frameBuffer d2)"
      by auto
  next
    assume "n1 = n2 \<and> length (frameBuffer d1) = length (frameBuffer d2)"
    with same c show "r1 = r2" by simp
  qed
qed

theorem landmark_fields_deterministic_witness:
  "currentPoseData (observe (pose_at 7) started_detector)
     = currentPoseData (fst (extractAll CONFIG started_detector [pose_at 7]))
   \<and> currentHandsData (observe (pose_at 7) started_detector)
     = currentHandsData (fst (extractAll CONFIG started_detector [pose_at 7]))
   \<and> currentFaceData (observe (pose_at 7) started_detector)
     = currentFaceData (fst (extractAll CONFIG started_detector [pose_at 7]))
   \<and> composeSkeletalData 7 (observe (pose_at 7) started_detector) = Inr pose_record
   \<and> composeSkeletalData 7 (fst (extractAll CONFIG started_detector [pose_at 7]))
        = Inr (pose_record\<lparr>frame_id := 1\<rparr>)
   \<and> map_sum id landmark_fields (composeSkeletalData 7 (observe (pose_at 7) started_detector))
     = map_sum id landmark_fields
         (composeSkeletalData 7 (fst (extractAll CONFIG started_detector [pose_at 7])))
   \<and> (pose_record = pose_record\<lparr>frame_id := 1\<rparr>
        \<longleftrightarrow> (7::nat) = 7 \<and> length (frameBuffer (observe (pose_at 7) started_detector))
              = length (frameBuffer (fst (extractAll CONFIG started_detector [pose_at 7]))))
   \<and> pose_record \<noteq> pose_record\<lparr>frame_id := 1\<rparr>"
proof -
  have p: "currentPoseData (observe (pose_at 7) started_detector)
     = currentPoseData (fst (extractAll CONFIG started_detector [pose_at 7]))"
    by code_simp
  have h: "currentHandsData (observe (pose_at 7) started_detector)
     = currentHandsData (fst (extractAll CONFIG started_detector [pose_at 7]))"
    by code_simp
  have f: "currentFaceData (observe (pose_at 7) started_detector)
     = currentFaceData (fst (extractAll CONFIG started_detector [pose_at 7]))"
    by code_simp
  have c1: "composeSkeletalData 7 (observe (pose_at 7) started_detector) = Inr pose_record"
    by code_simp
  have c2: "composeSkeletalData 7 (fst (extractAll CONFIG started_detector [pose_at 7]))
        = Inr (pose_record\<lparr>frame_id := 1\<rparr>)"
    by code_simp
  have ne: "pose_record \<noteq> pose_record\<lparr>frame_id := 1\<rparr>"
    by (simp add: pose_record_def)
  from landmark_fields_deterministic [OF p h f, of 7 7 pose_record "pose_record\<lparr>frame_id := 1\<rparr>"]
    c1 c2
  have "map_sum id landmark_fields (composeSkeletalData 7 (observe (pose_at 7) started_detector))
     = map_sum id landmark_fields
         (composeSkeletalData 7 (fst (extractAll CONFIG started_detector [pose_at 7])))"
    and "pose_record = pose_record\<lparr>frame_id := 1\<rparr>
        \<longleftrightarrow> (7::nat) = 7 \<and> length (frameBuffer (observe (pose_at 7) started_detector))
              = length (frameBuffer (fst (extractAll CONFIG started_detector [pose_at 7])))"
    by blast+
  with p h f c1 c2 ne show ?thesis by blast
qed

section \<open>The health probe\<close>

text \<open>
  C10. \<^verbatim>\<open>healthCheck\<close> never throws: when the request fails at the network level or
  the body is not valid JSON it returns \<^verbatim>\<open>null\<close>, otherwise the parsed body; for
  every outcome of the request it returns a value.
\<close>

theorem healthCheck_total:
  "healthCheck NetworkFailure = Inr JNull
   \<and> healthCheck (HttpResponse st None) = Inr JNull
   \<and> healthCheck (HttpResponse st (Some j)) = Inr j
   \<and> (\<exists>health. healthCheck out = Inr health)"
proof -
  have "\<exists>health. healthCheck out = Inr health"
    by (cases out)
      (auto simp add: healthCheck_def fetch_def response_json_def split: option.splits)
  then show ?thesis
    by (simp add: healthCheck_def fetch_def response_json_def)
qed

text \<open>
  C7, as stated, fails: after the probe has answered \<open>{"status": "down"}\<close> and the
  status line reads that the connection failed, a click on the start button starts the
  session all the same.
\<close>

theorem start_not_gated_counterexample:
  "status_textContent (elements (run CONFIG (new_App blank_page) [HealthSettled down_response]))
     = ''API connection failed. Check backend.''
   \<and> isRunning (run CONFIG (new_App blank_page)
        [HealthSettled down_response, StartClicked (Inr (MediaStream True))])
   \<and> status_textContent (elements (run CONFIG (new_App blank_page)
        [HealthSettled down_response, StartClicked (Inr (MediaStream True))]))
     = ''Active - Start signing!''"
  by code_simp

text \<open>
  C7, amended. When \<^verbatim>\<open>GET /health\<close> returns a 2xx response whose body is JSON with
  \<^verbatim>\<open>status\<close> equal to \<^verbatim>\<open>'ok'\<close>, the status line reads \<^verbatim>\<open>Ready to start\<close>. When
  the request fails at the network level, or the body is not valid JSON, or its
  \<^verbatim>\<open>status\<close> is not the string \<^verbatim>\<open>'ok'\<close>, the status line reads
  \<^verbatim>\<open>API connection failed. Check backend.\<close> The probe only writes the status line:
  \<^verbatim>\<open>start\<close> does not consult it, does the same after any probe outcome as without
  one, and is never refused on its account.
\<close>

theorem checkAPIHealth_status:
  "(response_ok st \<and> get_prop j ''status'' = Inr (Some (JStr ''ok''))
      \<longrightarrow> status_textContent (elements (checkAPIHealth_resume app (HttpResponse st (Some j))))
            = ''Ready to start'')
   \<and> (out = NetworkFailure \<or> (\<exists>st. out = HttpResponse st None)
        \<or> (\<exists>st j. out = HttpResponse st (Some j)
              \<and> get_prop j ''status'' \<noteq> Inr (Some (JStr ''ok'')))
      \<longrightarrow> status_textContent (elements (checkAPIHealth_resume app out))
            = ''API connection failed. Check backend.'')
   \<and> isRunning (start (checkAPIHealth_resume app out) (Inr stream))
   \<and> start (checkAPIHealth_resume app out) camera = start app camera"
proof (intro conjI impI)
  assume a: "response_ok st \<and> get_prop j ''status'' = Inr (Some (JStr ''ok''))"
  then have "truthy j" by (cases j) simp_all
  with a show "status_textContent (elements (checkAPIHealth_resume app (HttpResponse st (Some j))))
            = ''Ready to start''"
    by (simp add: checkAPIHealth_resume_def healthCheck_def fetch_def response_json_def
        health_ok_def updateStatus_def)
next
  assume "out = NetworkFailure \<or> (\<exists>st. out = HttpResponse st None)
        \<or> (\<exists>st j. out = HttpResponse st (Some j)
              \<and> get_prop j ''status'' \<noteq> Inr (Some (JStr ''ok'')))"
  then show "status_textContent (elements (checkAPIHealth_resume app out))
            = ''API connection failed. Check backend.''"
    by (auto simp add: checkAPIHealth_resume_def healthCheck_def fetch_def response_json_def
        health_ok_def updateStatus_def)
next
  show "isRunning (start (checkAPIHealth_resume app out) (Inr stream))"
    by (simp add: start_def Let_def updateStatus_def)
  show "start (checkAPIHealth_resume app out) camera = start app camera"
    by (cases camera)
      (simp_all add: start_def Let_def checkAPIHealth_resume_def updateStatus_def healthCheck_def
        split: sum.splits)
qed

theorem checkAPIHealth_status_witness:
  "response_ok 200
   \<and> get_prop (JObj [(''status'', JStr ''ok'')]) ''status'' = Inr (Some (JStr ''ok''))
   \<and> status_textContent (elements (checkAPIHealth_resume (new_App blank_page)
        (HttpResponse 200 (Some (JObj [(''status'', JStr ''ok'')]))))) = ''Ready to start''
   \<and> get_prop (JObj [(''status'', JStr ''down'')]) ''status'' \<noteq> Inr (Some (JStr ''ok''))
   \<and> status_textContent (elements (checkAPIHealth_resume (new_App blank_page) down_response))
        = ''API connection failed. Check backend.''
   \<and> status_textContent (elements (checkAPIHealth_resume (new_App blank_page) NetworkFailure))
        = ''API connection failed. Check backend.''"
  using checkAPIHealth_status
      [of 200 "JObj [(''status'', JStr ''ok'')]" "new_App blank_page" down_response]
    checkAPIHealth_status
      [of 200 "JObj [(''status'', JStr ''ok'')]" "new_App blank_page" NetworkFailure]
  by (simp add: response_ok_def down_response_def)

section \<open>Submission of batches\<close>

lemma updateStatus_fields [simp]:
  "poseDetector (updateStatus app m c) = poseDetector app"
  "isRunning (updateStatus app m c) = isRunning app"
  "in_flight (updateStatus app m c) = in_flight app"
  "posted (updateStatus app m c) = posted app"
  "status_textContent (elements (updateStatus app m c)) = m"
  "status_className (elements (updateStatus app m c)) = ''status '' @ c"
  "translation_textContent (elements (updateStatus app m c))
     = translation_textContent (elements app)"
  "words_textContent (elements (updateStatus app m c)) = words_textContent (elements app)"
  by (simp_all add: updateStatus_def)

lemmas run_defs = run_def running_app_def submitting_app_def new_App_def blank_page_def
  start_def stop_def checkAPIHealth_begin_def updateStatus_def initialize_def
  new_PoseDetector_def onPoseResults_def drawHands_def extractSkeletalData_def
  composeSkeletalData_def pushFrame_def onFrameBatch_begin_def pose_only_def CONFIG_def Let_def

lemma replicate_30:
  "replicate 30 x =
     [x, x, x, x, x, x, x, x, x, x, x, x, x, x, x, x, x, x, x, x, x, x, x, x, x, x, x, x,
      x, x]"
  by (simp add: eval_nat_numeral)

lemma replicate_60:
  "replicate 60 x =
     [x, x, x, x, x, x, x, x, x, x, x, x, x, x, x, x, x, x, x, x, x, x, x, x, x, x, x, x,
      x, x, x, x, x, x, x, x, x, x, x, x, x, x, x, x, x, x, x, x, x, x, x, x, x, x, x, x,
      x, x, x, x]"
  by (simp add: eval_nat_numeral)

lemma submitting_app_state:
  "isRunning submitting_app" "length (in_flight submitting_app) = 1"
  "length (posted submitting_app) = 1"
  by (simp_all add: run_defs replicate_30)

lemma translate_fails:
  assumes "out = NetworkFailure \<or> (\<exists>st body. out = HttpResponse st body \<and> \<not> response_ok st)"
  shows "translate out =
    Inl (case out of NetworkFailure \<Rightarrow> FetchError | HttpResponse st body \<Rightarrow> ApiError st)"
  using assms by (auto simp add: translate_def fetch_def)

text \<open>
  C6. When \<^verbatim>\<open>POST /translate\<close> fails at the network level or returns a status outside
  200..299, \<^verbatim>\<open>translate\<close> throws; \<^verbatim>\<open>onFrameBatch\<close> then only writes the status
  \<^verbatim>\<open>Translation failed. Retrying...\<close>: the session keeps running and the detector is
  untouched, no request is issued (the batch is not posted again), the failed request
  leaves the requests in flight, and the translation and words texts stay.
\<close>

theorem translate_failure_no_retry:
  assumes fail: "out = NetworkFailure
      \<or> (\<exists>st body. out = HttpResponse st body \<and> \<not> response_ok st)"
    and i: "i < length (in_flight app)"
  shows "(\<exists>error. translate out = Inl error)
    \<and> onFrameBatch_resume app out = updateStatus app ''Translation failed. Retrying...'' []
    \<and> status_textContent (elements (translate_settled app i out))
        = ''Translation failed. Retrying...''
    \<and> isRunning (translate_settled app i out) = isRunning app
    \<and> poseDetector (translate_settled app i out) = poseDetector app
    \<and> posted (translate_settled app i out) = posted app
    \<and> in_flight (translate_settled app i out)
        = take i (in_flight app) @ drop (Suc i) (in_flight app)
    \<and> translation_textContent (elements (translate_settled app i out))
        = translation_textContent (elements app)
    \<and> words_textContent (elements (translate_settled app i out))
        = words_textContent (elements app)"
proof -
  note t = translate_fails [OF fail]
  have r: "\<And>a. onFrameBatch_resume a out = updateStatus a ''Translation failed. Retrying...'' []"
    by (simp add: onFrameBatch_resume_def t)
  show ?thesis
    using i by (simp add: translate_settled_def r t)
qed

theorem translate_failure_no_retry_witness:
  "(HttpResponse 500 None = NetworkFailure
      \<or> (\<exists>st body. HttpResponse 500 None = HttpResponse st body \<and> \<not> response_ok st))
   \<and> 0 < length (in_flight submitting_app)
   \<and> length (posted submitting_app) = 1
   \<and> translate (HttpResponse 500 None) = Inl (ApiError 500)
   \<and> status_textContent (elements (translate_settled submitting_app 0 (HttpResponse 500 None)))
       = ''Translation failed. Retrying...''
   \<and> isRunning (translate_settled submitting_app 0 (HttpResponse 500 None))
   \<and> length (posted (translate_settled submitting_app 0 (HttpResponse 500 None))) = 1
   \<and> in_flight (translate_settled submitting_app 0 (HttpResponse 500 None)) = []"
proof -
  have f: "HttpResponse 500 None = NetworkFailure
      \<or> (\<exists>st body. HttpResponse 500 None = HttpResponse st body \<and> \<not> response_ok st)"
    by (simp add: response_ok_def)
  have n: "length (in_flight submitting_app) = 1" "length (posted submitting_app) = 1"
    "isRunning submitting_app"
    by (simp_all add: submitting_app_state)
  then have i: "0 < length (in_flight submitting_app)"
    by simp
  have t: "translate (HttpResponse 500 None) = Inl (ApiError 500)"
    by (simp add: translate_def fetch_def response_ok_def)
  show ?thesis
    using translate_failure_no_retry [OF f i] f n t by simp
qed

text \<open>
  C3, as stated, fails: 60 pose results on the running app release two batches, and with
  no response in between both requests are in flight at once; every batch posted is still
  in flight, none was held back or dropped.
\<close>

theorem two_in_flight_counterexample:
  "length (in_flight (run CONFIG running_app (replicate 60 (PoseResults 5 pose_only)))) = 2
   \<and> in_flight (run CONFIG running_app (replicate 60 (PoseResults 5 pose_only)))
      = posted (run CONFIG running_app (replicate 60 (PoseResults 5 pose_only)))"
  by (simp add: run_defs replicate_60)

lemma onFrameBatch_begin_running:
  "isRunning app \<Longrightarrow> isRunning (onFrameBatch_begin app frames)
     \<and> in_flight (onFrameBatch_begin app frames) = in_flight app @ [frames]
     \<and> posted (onFrameBatch_begin app frames) = posted app @ [frames]"
  by (simp add: onFrameBatch_begin_def)

text \<open>
  C3, amended. While the app is running, every batch handed to \<^verbatim>\<open>onFrameBatch\<close> is
  submitted at once, whatever is already in flight: batches released one after the other
  with no response in between are all in flight together, in release order; there is no
  bound on their number, no pending slot, and no batch is replaced or discarded.
\<close>

theorem onFrameBatch_submits_eagerly:
  assumes "isRunning app"
  shows "in_flight (foldl onFrameBatch_begin app batches) = in_flight app @ batches
    \<and> posted (foldl onFrameBatch_begin app batches) = posted app @ batches
    \<and> isRunning (foldl onFrameBatch_begin app batches)"
  using assms
proof (induction batches arbitrary: app)
  case Nil
  then show ?case by simp
next
  case (Cons b bs)
  from onFrameBatch_begin_running [OF Cons.prems, of b]
  have 1: "isRunning (onFrameBatch_begin app b)"
    and 2: "in_flight (onFrameBatch_begin app b) = in_flight app @ [b]"
    and 3: "posted (onFrameBatch_begin app b) = posted app @ [b]"
    by simp_all
  from Cons.IH [OF 1] 2 3 show ?case by simp
qed

theorem onFrameBatch_submits_eagerly_witness:
  "isRunning submitting_app \<and> length (in_flight submitting_app) = 1
   \<and> in_flight (foldl onFrameBatch_begin submitting_app (posted submitting_app))
        = in_flight submitting_app @ posted submitting_app
   \<and> length (in_flight (foldl onFrameBatch_begin submitting_app (posted submitting_app))) = 2"
proof -
  have r: "isRunning submitting_app" by (rule submitting_app_state)
  have n: "length (in_flight submitting_app) = 1" "length (posted submitting_app) = 1"
    by (rule submitting_app_state)+
  show ?thesis
    using onFrameBatch_submits_eagerly [OF r, of "posted submitting_app"] r n by simp
qed

section \<open>Stopping\<close>

text \<open>
  C4, on the code: the app has submitted its first batch and is stopped while the request
  is in flight; \<^verbatim>\<open>stop\<close> resets the texts. When the response arrives, the stopped app
  writes its translation and words and sets the status back to active.
\<close>

theorem stale_result_overwrites_after_stop:
  "\<not> isRunning (stop submitting_app)
   \<and> translation_textContent (elements (stop submitting_app)) = ''Start signing...''
   \<and> words_textContent (elements (stop submitting_app)) = []
   \<and> status_textContent (elements (stop submitting_app)) = ''Stopped''
   \<and> \<not> isRunning (run CONFIG submitting_app [StopClicked, TranslateSettled 0 hello_response])
   \<and> translation_textContent (elements
        (run CONFIG submitting_app [StopClicked, TranslateSettled 0 hello_response])) = ''hello''
   \<and> words_textContent (elements
        (run CONFIG submitting_app [StopClicked, TranslateSettled 0 hello_response]))
       = ''Recognized: hello, world''
   \<and> status_textContent (elements
        (run CONFIG submitting_app [StopClicked, TranslateSettled 0 hello_response]))
       = ''Active - Start signing!''"
proof -
  have "in_flight submitting_app \<noteq> []"
    using submitting_app_state(2) by auto
  then show ?thesis
    by (simp add: run_def stop_def translate_settled_def onFrameBatch_resume_def translate_def
        fetch_def response_ok_def response_json_def hello_response_def to_textContent_def
        words_join_def updateStatus_def Let_def)
qed

text \<open>
  C2, as stated, fails: the running app has buffered two records when it is stopped; the
  two records stay in the detector's buffer and nothing is posted.
\<close>

theorem stop_no_flush_counterexample:
  "map_option (map timestamp \<circ> frameBuffer) (poseDetector
      (run CONFIG running_app [PoseResults 5 pose_only, PoseResults 6 pose_only])) = Some [5, 6]
   \<and> map_option (map timestamp \<circ> frameBuffer) (poseDetector
      (run CONFIG running_app [PoseResults 5 pose_only, PoseResults 6 pose_only, StopClicked]))
     = Some [5, 6]
   \<and> posted (run CONFIG running_app
      [PoseResults 5 pose_only, PoseResults 6 pose_only, StopClicked]) = []"
  by code_simp

text \<open>
  C2, amended. \<^verbatim>\<open>stop\<close> performs no flush: it posts nothing, hands nothing to the
  callback and leaves the detector, with the records it has buffered, as it is; and once
  the app is stopped, a batch handed to \<^verbatim>\<open>onFrameBatch\<close> is dropped without being
  submitted.
\<close>

theorem stop_no_flush:
  "posted (stop app) = posted app
   \<and> in_flight (stop app) = in_flight app
   \<and> poseDetector (stop app) = poseDetector app
   \<and> \<not> isRunning (stop app)
   \<and> onFrameBatch_begin (stop app) frames = stop app"
  by (simp add: stop_def Let_def onFrameBatch_begin_def updateStatus_def)

end
